theory Spec2Isabelle
  imports Complex_Main "HOL-Library.Log_Nat" "HOL-Library.Char_ord" "HOL-Library.List_Lexorder"
begin

section \<open>Python values used by \<open>image_to_webp.py\<close>\<close>

text \<open>
  Exceptions are values. \<open>get_target_size\<close> can only raise through float arithmetic;
  everything the imaging library raises is a \<open>LibraryError\<close>, and what the operating
  system refuses is an \<open>OSError\<close>.
\<close>

datatype exn = ZeroDivisionError | OverflowError | LibraryError string | OSError string

subsection \<open>Binary64 floats\<close>

text \<open>
  A finite Python float is represented by the rational number it denotes. The sign of a
  zero is not represented: comparison, multiplication and \<open>round\<close>, the only float
  operations of \<open>get_target_size\<close>, give the same integers for \<open>-0.0\<close> and \<open>0.0\<close>.

  \<open>round_half_even\<close> is rounding to the nearest integer, ties to the even one, which is
  both the rounding of the binary64 significand and Python's \<open>round(x)\<close>.
\<close>

definition round_half_even :: "rat \<Rightarrow> int" where
  "round_half_even x =
     (let f = \<lfloor>x\<rfloor>; d = x - of_int f
      in if d < 1 / 2 then f
         else if 1 / 2 < d then f + 1
         else if even f then f else f + 1)"

text \<open>\<open>ilog2 x\<close> is the binary exponent of a positive \<open>x\<close>: \<open>2^e \<le> x < 2^(e+1)\<close>.\<close>

definition ilog2 :: "rat \<Rightarrow> int" where
  "ilog2 x =
     (let (p, q) = quotient_of x; e = bitlen p - bitlen q
      in if 2 powi e \<le> x then e else e - 1)"

text \<open>
  The nearest binary64 value with an unbounded exponent above: 53 significant bits, and
  no bit below \<open>2^-1074\<close> (the subnormal range).
\<close>

definition nearest_double :: "rat \<Rightarrow> rat" where
  "nearest_double x =
     (if x = 0 then 0
      else let e = ilog2 \<bar>x\<bar>;
               q = max (e - 52) (- 1074);
               m = round_half_even (\<bar>x\<bar> / 2 powi q)
           in sgn x * of_int m * 2 powi q)"

text \<open>A correctly rounded result overflows when it reaches \<open>2^1024\<close>.\<close>

definition to_double :: "rat \<Rightarrow> rat option" where
  "to_double x = (let r = nearest_double x in if \<bar>r\<bar> < 2 ^ 1024 then Some r else None)"

datatype pyfloat = Finite rat | Infinite

text \<open>
  \<open>a / b\<close> on two ints: the correctly rounded quotient; \<open>OverflowError\<close> when it
  is too large for a float, \<open>ZeroDivisionError\<close> for a zero divisor.
\<close>

definition int_true_div :: "int \<Rightarrow> int \<Rightarrow> exn + rat" where
  "int_true_div a b =
     (if b = 0 then Inl ZeroDivisionError
      else case to_double (of_int a / of_int b) of
             None \<Rightarrow> Inl OverflowError
           | Some r \<Rightarrow> Inr r)"

text \<open>The conversion of the int operand of \<open>int * float\<close>; it raises on overflow.\<close>

definition int_to_float :: "int \<Rightarrow> exn + rat" where
  "int_to_float n =
     (case to_double (of_int n) of None \<Rightarrow> Inl OverflowError | Some r \<Rightarrow> Inr r)"

text \<open>The product of two finite floats; it overflows to an infinity without raising.\<close>

definition float_mul :: "rat \<Rightarrow> rat \<Rightarrow> pyfloat" where
  "float_mul a b = (case to_double (a * b) of None \<Rightarrow> Infinite | Some r \<Rightarrow> Finite r)"

definition int_mul_float :: "int \<Rightarrow> rat \<Rightarrow> exn + pyfloat" where
  "int_mul_float n x =
     (case int_to_float n of Inl e \<Rightarrow> Inl e | Inr a \<Rightarrow> Inr (float_mul a x))"

text \<open>\<open>int(round(x))\<close>: \<open>round\<close> of an infinity raises \<open>OverflowError\<close>.\<close>

fun py_round :: "pyfloat \<Rightarrow> exn + int" where
  "py_round (Finite r) = Inr (round_half_even r)"
| "py_round Infinite = Inl OverflowError"

text \<open>\<open>min(a, b)\<close> returns \<open>a\<close> unless \<open>b < a\<close>.\<close>

definition py_min :: "'a::linorder \<Rightarrow> 'a \<Rightarrow> 'a" where
  "py_min a b = (if b < a then b else a)"

text \<open>\<open>max(a, b)\<close> returns \<open>a\<close> unless \<open>b > a\<close>.\<close>

definition py_max :: "'a::linorder \<Rightarrow> 'a \<Rightarrow> 'a" where
  "py_max a b = (if a < b then b else a)"

section \<open>\<open>get_target_size\<close>\<close>

definition get_target_size :: "int \<times> int \<Rightarrow> int \<times> int \<Rightarrow> bool \<Rightarrow> bool \<Rightarrow> exn + int \<times> int" where
  "get_target_size original_size target_size keep_aspect_ratio no_upscale =
     (let (original_w, original_h) = original_size;
          (target_w, target_h) = target_size
      in if keep_aspect_ratio then
           if original_w = 0 \<or> original_h = 0 then Inr original_size
           else
             case int_true_div target_w original_w of Inl e \<Rightarrow> Inl e | Inr scale_w \<Rightarrow>
             case int_true_div target_h original_h of Inl e \<Rightarrow> Inl e | Inr scale_h \<Rightarrow>
             let scale = py_min scale_w scale_h;
                 scale = (if no_upscale then py_min scale 1 else scale)
             in case int_mul_float original_w scale of Inl e \<Rightarrow> Inl e | Inr pw \<Rightarrow>
                case py_round pw of Inl e \<Rightarrow> Inl e | Inr rw \<Rightarrow>
                case int_mul_float original_h scale of Inl e \<Rightarrow> Inl e | Inr ph \<Rightarrow>
                case py_round ph of Inl e \<Rightarrow> Inl e | Inr rh \<Rightarrow>
                  Inr (py_max 1 rw, py_max 1 rh)
         else
           let (resized_w, resized_h) = (target_w, target_h);
               (resized_w, resized_h) =
                 (if no_upscale
                  then (py_min original_w target_w, py_min original_h target_h)
                  else (resized_w, resized_h))
           in Inr (resized_w, resized_h))"

section \<open>The imaging library and the file system\<close>

text \<open>
  The imaging library is not part of the program. What \<open>process_image\<close> reads of an
  opened image is its \<open>size\<close> and the \<open>icc_profile\<close> entry of its \<open>info\<close>
  dictionary (\<open>None\<close> when the key is absent); the rest is opaque.
\<close>

type_synonym bytes = string

record image =
  img_size :: "int \<times> int"
  info_icc_profile :: "bytes option"
  pixels :: bytes

text \<open>
  The keyword arguments of \<open>save\<close>. A dictionary key that may be absent is an option.
\<close>

record save_kwargs =
  kw_format :: string
  kw_quality :: int
  kw_lossless :: bool
  kw_method :: int
  kw_icc_profile :: "bytes option"

text \<open>
  Modelled from the spec: the encoder is the codec collaborator, which attaches the
  profile it is given, unmodified, to the encoded output. A written output file is
  represented by the image and the keyword arguments the encoder received, so the
  profile an output carries is the \<open>icc_profile\<close> argument of \<open>save\<close>.
\<close>

datatype content = Data bytes | WebP image save_kwargs

datatype node = File content | Directory

fun carried_profile :: "content \<Rightarrow> bytes option" where
  "carried_profile (WebP img kw) = kw_icc_profile kw"
| "carried_profile (Data b) = None"

text \<open>
  When and how the library fails is a parameter of the model:
  \<^item> \<open>image_open\<close> is \<open>Image.open\<close> on the file of a directory entry;
  \<^item> \<open>transpose_resize\<close> is \<open>ImageOps.exif_transpose(img).resize(target, LANCZOS)\<close>;
  \<^item> \<open>save_failure\<close> says whether \<open>save\<close> raises for this image, these arguments
    and this previous entry at the output path, and what it then leaves at the path.
\<close>

record codec =
  image_open :: "node \<Rightarrow> exn + image"
  transpose_resize :: "image \<Rightarrow> int \<times> int \<Rightarrow> exn + image"
  save_failure :: "image \<Rightarrow> save_kwargs \<Rightarrow> node option \<Rightarrow> (exn \<times> node option) option"

text \<open>The library calls a run makes, in order.\<close>

datatype call = OpenCall string | ResizeCall string "int \<times> int" | SaveCall string save_kwargs

text \<open>What there is at the path \<open>args.output_dir\<close>.\<close>

datatype path_kind = NoEntry | FileEntry | DirEntry

text \<open>
  The two directories of a run. \<open>input_dir\<close> is \<open>None\<close> when \<open>args.input_dir\<close> is
  not a directory, and otherwise its entries in the order \<open>iterdir()\<close> yields them;
  \<open>iterdir_error\<close> is the exception \<open>iterdir()\<close> raises instead, if the directory
  cannot be read. \<open>output_dir\<close> says what is at the output path, \<open>mkdir_error\<close> is
  the exception the operating system answers when the output directory has to be
  created and cannot be, and \<open>output_files\<close> maps the entry names of the output
  directory to nodes. The program writes only names ending in \<open>.webp\<close> and reads only
  candidates, whose suffix is another one, so the entries it reads are never the ones it
  writes.
\<close>

record world =
  input_dir :: "(string \<times> node) list option"
  iterdir_error :: "exn option"
  output_dir :: path_kind
  mkdir_error :: "exn option"
  output_files :: "string \<rightharpoonup> node"
  calls :: "call list"

subsection \<open>\<open>pathlib\<close> names\<close>

text \<open>\<open>s.rfind(c)\<close>: the index of the last occurrence, \<open>None\<close> for Python's \<open>-1\<close>.\<close>

definition rfind :: "char \<Rightarrow> string \<Rightarrow> nat option" where
  "rfind c s =
     (if c \<in> set s then Some (length s - 1 - length (takeWhile (\<lambda>d. d \<noteq> c) (rev s)))
      else None)"

text \<open>
  \<open>PurePath.suffix\<close> and \<open>PurePath.stem\<close> of a file name: the name is cut at its last
  dot, unless that dot is the first or the last character. Names are strings of one-byte
  characters.
\<close>

definition path_suffix :: "string \<Rightarrow> string" where
  "path_suffix name =
     (case rfind CHR ''.'' name of
        Some i \<Rightarrow> if 0 < i \<and> i < length name - 1 then drop i name else []
      | None \<Rightarrow> [])"

definition path_stem :: "string \<Rightarrow> string" where
  "path_stem name =
     (case rfind CHR ''.'' name of
        Some i \<Rightarrow> if 0 < i \<and> i < length name - 1 then take i name else name
      | None \<Rightarrow> name)"

text \<open>\<open>str.lower\<close> on the ASCII letters.\<close>

definition lower_char :: "char \<Rightarrow> char" where
  "lower_char c =
     (if CHR ''A'' \<le> c \<and> c \<le> CHR ''Z'' then char_of (of_char c + (32::nat)) else c)"

definition lower :: "string \<Rightarrow> string" where
  "lower s = map lower_char s"

section \<open>The program\<close>

definition SUPPORTED_EXTENSIONS :: "string set" where
  "SUPPORTED_EXTENSIONS = {''.jpg'', ''.jpeg'', ''.png''}"

text \<open>
  The namespace \<open>parse_args\<close> returns, without the two directory paths, which the
  \<open>world\<close> stands for. \<open>parse_args\<close> leaves the process with status 2 before \<open>main\<close>
  does anything unless \<open>0 < width\<close>, \<open>0 < height\<close> and \<open>0 \<le> quality \<le> 100\<close>.
\<close>

record args =
  width :: int
  height :: int
  quality :: int
  keep_aspect_ratio :: bool
  no_upscale :: bool
  lossless :: bool
  overwrite :: bool

definition log_call :: "call \<Rightarrow> world \<Rightarrow> world" where
  "log_call c w = w\<lparr>calls := calls w @ [c]\<rparr>"

text \<open>
  \<open>resized.save(output_path, **save_kwargs)\<close>: on success the output path holds the
  encoded image; on failure the exception propagates and the path holds what the library
  left there.
\<close>

definition image_save :: "codec \<Rightarrow> world \<Rightarrow> image \<Rightarrow> string \<Rightarrow> save_kwargs \<Rightarrow> exn option \<times> world" where
  "image_save c w resized output_name kw =
     (let w' = log_call (SaveCall output_name kw) w
      in case save_failure c resized kw (output_files w output_name) of
           None \<Rightarrow>
             (None, w'\<lparr>output_files := (output_files w)(output_name \<mapsto> File (WebP resized kw))\<rparr>)
         | Some (e, left) \<Rightarrow>
             (Some e, w'\<lparr>output_files := (output_files w)(output_name := left)\<rparr>))"

text \<open>
  \<open>process_image\<close> returns \<open>None\<close>, or the exception it raises. The input path is the
  directory entry, the output path the name in the output directory.
\<close>

definition process_image ::
  "codec \<Rightarrow> world \<Rightarrow> string \<times> node \<Rightarrow> string \<Rightarrow> int \<times> int \<Rightarrow> int \<Rightarrow> bool \<Rightarrow> bool \<Rightarrow> bool
    \<Rightarrow> exn option \<times> world" where
  "process_image c w input_path output_name target_size qual keep no_up lossl =
     (let w1 = log_call (OpenCall (fst input_path)) w
      in case image_open c (snd input_path) of
           Inl e \<Rightarrow> (Some e, w1)
         | Inr img \<Rightarrow>
             let icc_profile = info_icc_profile img
             in case get_target_size (img_size img) target_size keep no_up of
                  Inl e \<Rightarrow> (Some e, w1)
                | Inr target \<Rightarrow>
                    let w2 = log_call (ResizeCall (fst input_path) target) w1
                    in case transpose_resize c img target of
                         Inl e \<Rightarrow> (Some e, w2)
                       | Inr resized \<Rightarrow>
                           let kw = \<lparr>kw_format = ''WEBP'', kw_quality = qual,
                                     kw_lossless = lossl, kw_method = 6,
                                     kw_icc_profile = None\<rparr>;
                               kw = (if icc_profile \<noteq> None
                                     then kw\<lparr>kw_icc_profile := icc_profile\<rparr> else kw)
                           in image_save c w2 resized output_name kw)"

text \<open>
  The sorted candidates of \<open>main\<close>: the regular files with a supported suffix, in the
  order of their names (paths of one directory compare by name, character by character).
\<close>

fun is_file :: "node \<Rightarrow> bool" where
  "is_file (File _) = True"
| "is_file Directory = False"

definition candidate_files :: "(string \<times> node) list \<Rightarrow> (string \<times> node) list" where
  "candidate_files entries =
     sort_key fst
       (filter (\<lambda>p. is_file (snd p) \<and> lower (path_suffix (fst p)) \<in> SUPPORTED_EXTENSIONS) entries)"

text \<open>
  The per-file lines \<open>main\<close> prints are the outcomes: \<open>OK\<close>, \<open>Saltando\<close> and
  \<open>Error procesando\<close>. The state of the loop is the world, the three counters and the
  lines printed so far.
\<close>

datatype outcome = Processed | Skipped | Failed exn

record run =
  run_world :: world
  processed :: nat
  skipped :: nat
  errors :: nat
  outcomes :: "(string \<times> outcome) list"

definition output_name_of :: "string \<times> node \<Rightarrow> string" where
  "output_name_of input_path = path_stem (fst input_path) @ ''.webp''"

definition loop_body :: "codec \<Rightarrow> args \<Rightarrow> run \<Rightarrow> string \<times> node \<Rightarrow> run" where
  "loop_body c a r input_path =
     (let output_name = output_name_of input_path
      in if output_files (run_world r) output_name \<noteq> None \<and> \<not> overwrite a then
           r\<lparr>skipped := skipped r + 1,
             outcomes := outcomes r @ [(fst input_path, Skipped)]\<rparr>
         else
           case process_image c (run_world r) input_path output_name (width a, height a)
                  (quality a) (keep_aspect_ratio a) (no_upscale a) (lossless a) of
             (None, w') \<Rightarrow>
               r\<lparr>run_world := w', processed := processed r + 1,
                 outcomes := outcomes r @ [(fst input_path, Processed)]\<rparr>
           | (Some e, w') \<Rightarrow>
               r\<lparr>run_world := w', errors := errors r + 1,
                 outcomes := outcomes r @ [(fst input_path, Failed e)]\<rparr>)"

definition start :: "world \<Rightarrow> run" where
  "start w = \<lparr>run_world = w, processed = 0, skipped = 0, errors = 0, outcomes = []\<rparr>"

text \<open>
  \<open>args.output_dir.mkdir(parents=True, exist_ok=True)\<close>: nothing to do when the
  directory is there, \<open>FileExistsError\<close> when the path is a regular file, and otherwise
  the directory is created unless the operating system refuses.
\<close>

definition mkdir :: "world \<Rightarrow> exn + world" where
  "mkdir w =
     (case output_dir w of
        DirEntry \<Rightarrow> Inr w
      | FileEntry \<Rightarrow> Inl (OSError ''FileExistsError'')
      | NoEntry \<Rightarrow>
          (case mkdir_error w of
             Some e \<Rightarrow> Inl e
           | None \<Rightarrow> Inr (w\<lparr>output_dir := DirEntry\<rparr>)))"

text \<open>
  \<open>main\<close> after \<open>parse_args\<close> has returned: the status it returns or the exception it
  raises, and the final state. \<open>mkdir\<close> and the listing are outside the \<open>try\<close> of the
  loop, so what they raise leaves \<open>main\<close>.
\<close>

definition main :: "codec \<Rightarrow> args \<Rightarrow> world \<Rightarrow> (exn + int) \<times> run" where
  "main c a w =
     (case input_dir w of
        None \<Rightarrow> (Inr 1, start w)
      | Some entries \<Rightarrow>
          (case mkdir w of
             Inl e \<Rightarrow> (Inl e, start w)
           | Inr w1 \<Rightarrow>
               (case iterdir_error w of
                  Some e \<Rightarrow> (Inl e, start w1)
                | None \<Rightarrow>
                    let files = candidate_files entries
                    in if files = [] then (Inr 0, start w1)
                       else let r = foldl (loop_body c a) (start w1) files
                            in (Inr (if errors r \<noteq> 0 then 1 else 0), r))))"

text \<open>
  \<open>raise SystemExit(main())\<close>: the exit status of the process is the status \<open>main\<close>
  returns, and 1 when an exception leaves \<open>main\<close>.
\<close>

fun process_exit_status :: "exn + int \<Rightarrow> int" where
  "process_exit_status (Inr status) = status"
| "process_exit_status (Inl e) = 1"

text \<open>
  Notions the properties are stated with: a failed outcome, and the state of the loop
  once it has handled the candidates \<open>fs\<close>, having started in the world \<open>w\<close>.
\<close>

fun is_failed :: "outcome \<Rightarrow> bool" where
  "is_failed (Failed e) = True"
| "is_failed Processed = False"
| "is_failed Skipped = False"

definition state_after :: "codec \<Rightarrow> args \<Rightarrow> world \<Rightarrow> (string \<times> node) list \<Rightarrow> run" where
  "state_after c a w fs = foldl (loop_body c a) (start w) fs"

text \<open>
  The batch protocol in the words of the specification (4.3, steps 6 and 7), a second
  description to compare the loop of \<open>main\<close> with. For each candidate in turn: if there is
  something at its output path and \<open>overwrite\<close> is off, the outcome is \<open>Skipped\<close> and
  nothing is touched; otherwise the file is processed, the outcome is \<open>Processed\<close> when
  that succeeds and \<open>Failed\<close> with the error when it raises; in each case the next
  candidate is handled in the world this one left. The result is the list of outcomes
  and the final world.
\<close>

fun batch_protocol ::
  "codec \<Rightarrow> args \<Rightarrow> world \<Rightarrow> (string \<times> node) list \<Rightarrow> (string \<times> outcome) list \<times> world" where
  "batch_protocol c a w [] = ([], w)"
| "batch_protocol c a w (f # fs) =
     (if output_files w (output_name_of f) \<noteq> None \<and> \<not> overwrite a then
        (let rest = batch_protocol c a w fs
         in ((fst f, Skipped) # fst rest, snd rest))
      else
        (let p = process_image c w f (output_name_of f) (width a, height a) (quality a)
                   (keep_aspect_ratio a) (no_upscale a) (lossless a);
             rest = batch_protocol c a (snd p) fs
         in ((fst f, case fst p of None \<Rightarrow> Processed | Some e \<Rightarrow> Failed e) # fst rest,
             snd rest)))"

section \<open>Example runs\<close>

text \<open>
  A library for the examples: a file decodes when its data starts with \<open>IMG\<close>, as an
  800 by 600 image whose colour profile is the rest of the data (none when empty);
  resizing and saving never fail.
\<close>

definition example_codec :: codec where
  "example_codec =
     \<lparr>image_open = (\<lambda>n. case n of
          File (Data (CHR ''I'' # CHR ''M'' # CHR ''G'' # rest)) \<Rightarrow>
            Inr \<lparr>img_size = (800, 600),
                 info_icc_profile = (if rest = [] then None else Some rest),
                 pixels = []\<rparr>
        | _ \<Rightarrow> Inl (LibraryError ''cannot identify image file'')),
      transpose_resize = (\<lambda>img target. Inr (img\<lparr>img_size := target\<rparr>)),
      save_failure = (\<lambda>img kw old. None)\<rparr>"

definition example_args :: args where
  "example_args =
     \<lparr>width = 400, height = 400, quality = 80, keep_aspect_ratio = False,
      no_upscale = True, lossless = False, overwrite = False\<rparr>"

text \<open>Three candidates, the second one corrupt, beside a text file and a directory.\<close>

definition batch_world :: world where
  "batch_world =
     \<lparr>input_dir = Some [(''c.JPEG'', File (Data ''IMG'')), (''notes.txt'', File (Data ''hello'')),
                         (''b.png'', File (Data ''garbage'')), (''sub.png'', Directory),
                         (''a.jpg'', File (Data ''IMGsRGB''))],
      iterdir_error = None, output_dir = NoEntry, mkdir_error = None,
      output_files = Map.empty, calls = []\<rparr>"

text \<open>One candidate whose output is already there.\<close>

definition rerun_world :: world where
  "rerun_world =
     \<lparr>input_dir = Some [(''a.jpg'', File (Data ''IMG''))],
      iterdir_error = None, output_dir = DirEntry, mkdir_error = None,
      output_files = [''a.webp'' \<mapsto> File (Data ''old'')], calls = []\<rparr>"

text \<open>Two candidates with one stem.\<close>

definition same_stem_world :: world where
  "same_stem_world =
     \<lparr>input_dir = Some [(''a.png'', File (Data ''IMGsRGB'')), (''a.jpg'', File (Data ''IMG''))],
      iterdir_error = None, output_dir = DirEntry, mkdir_error = None,
      output_files = Map.empty, calls = []\<rparr>"

text \<open>An input directory that does not exist, and an empty one.\<close>

definition missing_world :: world where
  "missing_world =
     \<lparr>input_dir = None, iterdir_error = None, output_dir = NoEntry, mkdir_error = None,
      output_files = Map.empty, calls = []\<rparr>"

definition empty_world :: world where
  "empty_world =
     \<lparr>input_dir = Some [], iterdir_error = None, output_dir = NoEntry, mkdir_error = None,
      output_files = Map.empty, calls = []\<rparr>"

text \<open>An empty input directory, with a regular file at the output path.\<close>

definition blocked_world :: world where
  "blocked_world =
     \<lparr>input_dir = Some [], iterdir_error = None, output_dir = FileEntry, mkdir_error = None,
      output_files = Map.empty, calls = []\<rparr>"

section \<open>Properties of the float operations\<close>

lemma bitlen_powi:
  assumes "0 < p"
  shows "(2::rat) powi (bitlen p - 1) \<le> of_int p" and "(of_int p :: rat) < 2 powi bitlen p"
proof -
  from assms have b1: "1 \<le> bitlen p"
    using bitlen_eq_zero_iff [of p] bitlen_nonneg [of p] by linarith
  from bitlen_bounds [OF assms]
  have lo: "(2::int) ^ nat (bitlen p - 1) \<le> p" and hi: "p < 2 ^ nat (bitlen p)" by simp_all
  have "(of_int ((2::int) ^ nat (bitlen p - 1)) :: rat) \<le> of_int p"
    using lo by (simp only: of_int_le_iff)
  then show "(2::rat) powi (bitlen p - 1) \<le> of_int p"
    using b1 by (simp add: power_int_def)
  have "(of_int p :: rat) < of_int ((2::int) ^ nat (bitlen p))"
    using hi by (simp only: of_int_less_iff)
  then show "(of_int p :: rat) < 2 powi bitlen p"
    using b1 by (simp add: power_int_def)
qed

lemma ilog2_bounds:
  assumes "0 < x"
  shows "2 powi ilog2 x \<le> x" and "x < 2 powi (ilog2 x + 1)"
proof -
  obtain p q where pq: "quotient_of x = (p, q)" by (cases "quotient_of x")
  then have q: "0 < q" by (rule quotient_of_denom_pos)
  have x: "x = of_int p / of_int q" using pq by (rule quotient_of_div)
  with assms q have p: "0 < p" by (simp add: zero_less_divide_iff)
  define e where "e = bitlen p - bitlen q"
  have il: "ilog2 x = (if 2 powi e \<le> x then e else e - 1)"
    by (simp add: ilog2_def pq e_def Let_def)
  have qpos: "(0::rat) < of_int q" using q by simp
  have "x < 2 powi bitlen p / 2 powi (bitlen q - 1)"
    unfolding x using bitlen_powi [OF p] bitlen_powi [OF q] qpos
    by (intro frac_less) (auto simp: less_imp_le p)
  also have "\<dots> = 2 powi (e + 1)"
    by (simp add: e_def power_int_diff [symmetric] algebra_simps)
  finally have up: "x < 2 powi (e + 1)" .
  have "2 powi (bitlen p - 1) / 2 powi bitlen q \<le> x"
    unfolding x using bitlen_powi [OF p] bitlen_powi [OF q] qpos
    by (intro frac_le) (auto simp: less_imp_le p)
  moreover have "(2::rat) powi (bitlen p - 1) / 2 powi bitlen q = 2 powi (e - 1)"
    by (simp add: e_def power_int_diff [symmetric] algebra_simps)
  ultimately have lo: "2 powi (e - 1) \<le> x" by simp
  show "2 powi ilog2 x \<le> x" using il lo by simp
  show "x < 2 powi (ilog2 x + 1)" using il up by (simp add: not_le)
qed


lemma round_half_even_of_int: "round_half_even (of_int n) = n"
  by (simp add: round_half_even_def)

lemma round_half_even_ge:
  assumes "of_int n \<le> x"
  shows "n \<le> round_half_even x"
proof -
  from assms have "n \<le> \<lfloor>x\<rfloor>" by (simp add: le_floor_iff)
  then show ?thesis by (simp add: round_half_even_def Let_def)
qed

lemma round_half_even_le:
  assumes "x \<le> of_int n"
  shows "round_half_even x \<le> n"
proof (cases "x = of_int \<lfloor>x\<rfloor>")
  case True
  then have "round_half_even x = \<lfloor>x\<rfloor>"
    using round_half_even_of_int [of "\<lfloor>x\<rfloor>"] by simp
  moreover have "\<lfloor>x\<rfloor> \<le> n" using assms by (simp add: floor_le_iff)
  ultimately show ?thesis by simp
next
  case False
  moreover have "of_int \<lfloor>x\<rfloor> \<le> x" by (rule of_int_floor_le)
  ultimately have "of_int \<lfloor>x\<rfloor> < x" by (metis less_le)
  with assms have "(of_int \<lfloor>x\<rfloor> :: rat) < of_int n" by simp
  then have "\<lfloor>x\<rfloor> < n" by (simp only: of_int_less_iff)
  then show ?thesis by (simp add: round_half_even_def Let_def)
qed

lemma nearest_double_pos_unfold:
  assumes "0 < x"
  shows "nearest_double x =
    of_int (round_half_even (x / 2 powi max (ilog2 x - 52) (- 1074))) * 2 powi max (ilog2 x - 52) (- 1074)"
  using assms by (simp add: nearest_double_def Let_def)

lemma nearest_double_nonneg:
  assumes "0 < x"
  shows "0 \<le> nearest_double x"
proof -
  let ?q = "max (ilog2 x - 52) (- 1074)"
  have "(of_int 0 :: rat) \<le> x / 2 powi ?q" using assms by simp
  then have "0 \<le> round_half_even (x / 2 powi ?q)" by (rule round_half_even_ge)
  then show ?thesis
    unfolding nearest_double_pos_unfold [OF assms] by simp
qed

lemma nearest_double_upper:
  assumes "0 < x"
  shows "nearest_double x \<le> 2 powi (ilog2 x + 1)"
proof -
  let ?e = "ilog2 x"
  let ?q = "max (?e - 52) (- 1074)"
  let ?m = "round_half_even (x / 2 powi ?q)"
  have pq: "(0::rat) < 2 powi ?q" by simp
  have "x / 2 powi ?q < 2 powi (?e + 1) / 2 powi ?q"
    using ilog2_bounds(2) [OF assms] pq by (simp add: divide_strict_right_mono)
  also have "\<dots> = 2 powi (?e + 1 - ?q)" by (simp add: power_int_diff)
  finally have lt: "x / 2 powi ?q < 2 powi (?e + 1 - ?q)" .
  show ?thesis
  proof (cases "0 \<le> ?e + 1 - ?q")
    case True
    then have "(2::rat) powi (?e + 1 - ?q) = of_int (2 ^ nat (?e + 1 - ?q))"
      by (simp add: power_int_def)
    with lt have "x / 2 powi ?q \<le> of_int (2 ^ nat (?e + 1 - ?q))" by simp
    then have "?m \<le> 2 ^ nat (?e + 1 - ?q)" by (rule round_half_even_le)
    then have "(of_int ?m :: rat) \<le> of_int (2 ^ nat (?e + 1 - ?q))"
      by (simp only: of_int_le_iff)
    also have "\<dots> = 2 powi (?e + 1 - ?q)" using True by (simp add: power_int_def)
    finally have "(of_int ?m :: rat) * 2 powi ?q \<le> 2 powi (?e + 1 - ?q) * 2 powi ?q"
      using pq by (intro mult_right_mono) simp_all
    also have "\<dots> = 2 powi (?e + 1)" by (simp add: power_int_add [symmetric])
    finally show ?thesis unfolding nearest_double_pos_unfold [OF assms] .
  next
    case False
    then have "?e + 1 - ?q \<le> - 1" by simp
    then have "(2::rat) powi (?e + 1 - ?q) \<le> 2 powi (- 1)"
      by (intro power_int_increasing) simp_all
    with lt have "x / 2 powi ?q < 2 powi (- 1)" by (rule less_le_trans)
    also have "(2::rat) powi (- 1) = 1 / 2" by (simp add: power_int_minus_divide)
    finally have lt': "x / 2 powi ?q < 1 / 2" .
    have ge0: "0 \<le> x / 2 powi ?q" using assms by simp
    define y where "y = x / 2 powi ?q"
    have y: "0 \<le> y" "y < 1 / 2" using lt' ge0 by (simp_all only: y_def)
    then have "0 \<le> y \<and> y < 1" by simp
    then have fl: "\<lfloor>y\<rfloor> = 0" by (simp only: floor_eq_iff) simp
    have "round_half_even y = 0" using y by (simp add: round_half_even_def fl)
    then have "?m = 0" by (simp only: y_def)
    then show ?thesis unfolding nearest_double_pos_unfold [OF assms] by simp
  qed
qed

lemma nearest_double_lower:
  assumes "0 < x" and "- 1022 \<le> ilog2 x"
  shows "2 powi ilog2 x \<le> nearest_double x"
proof -
  let ?e = "ilog2 x"
  let ?q = "?e - 52"
  let ?m = "round_half_even (x / 2 powi ?q)"
  have q: "max (?e - 52) (- 1074) = ?q" using assms(2) by simp
  have pq: "(0::rat) < 2 powi ?q" by simp
  have "(2::rat) powi ?e / 2 powi ?q \<le> x / 2 powi ?q"
    using ilog2_bounds(1) [OF assms(1)] pq by (simp add: divide_right_mono)
  moreover have "(2::rat) powi ?e / 2 powi ?q = of_int (2 ^ 52)"
    by (simp add: power_int_diff [symmetric])
  ultimately have "of_int (2 ^ 52) \<le> x / 2 powi ?q" by simp
  then have "2 ^ 52 \<le> ?m" by (rule round_half_even_ge)
  then have "(of_int (2 ^ 52) :: rat) \<le> of_int ?m" by (simp only: of_int_le_iff)
  then have A: "(of_int (2 ^ 52) :: rat) * 2 powi ?q \<le> of_int ?m * 2 powi ?q"
    using pq by (intro mult_right_mono) simp_all
  have B: "(of_int (2 ^ 52) :: rat) * 2 powi ?q = 2 powi ?e"
    by (simp add: power_int_diff)
  show ?thesis
    unfolding nearest_double_pos_unfold [OF assms(1)] q using A unfolding B .
qed

lemma powi2_less_cancel:
  assumes "(2::rat) powi m < 2 powi n"
  shows "m < n"
proof (rule ccontr)
  assume "\<not> m < n"
  then have "n \<le> m" by simp
  then have "(2::rat) powi n \<le> 2 powi m" by (intro power_int_increasing) simp_all
  with assms show False by simp
qed

lemma nearest_double_ge_1:
  assumes "1 \<le> x"
  shows "1 \<le> nearest_double x"
proof -
  from assms have x: "0 < x" by simp
  have "(2::rat) powi 0 \<le> x" using assms by simp
  also have "x < 2 powi (ilog2 x + 1)" by (rule ilog2_bounds(2) [OF x])
  finally have "0 < ilog2 x + 1" by (rule powi2_less_cancel)
  then have e: "0 \<le> ilog2 x" by simp
  then have "(2::rat) powi 0 \<le> 2 powi ilog2 x" by (intro power_int_increasing) simp_all
  also have "\<dots> \<le> nearest_double x" using x e by (intro nearest_double_lower) simp_all
  finally show ?thesis by simp
qed


lemma powi2_le_cancel:
  assumes "(2::rat) powi m \<le> 2 powi n"
  shows "m \<le> n"
proof (rule ccontr)
  assume "\<not> m \<le> n"
  then have "n < m" by simp
  then have "(2::rat) powi n < 2 powi m" by (intro power_int_strict_increasing) simp_all
  with assms show False by simp
qed

lemma nearest_double_le_twice:
  assumes "0 < x"
  shows "nearest_double x \<le> 2 * x"
proof -
  have "nearest_double x \<le> 2 powi (ilog2 x + 1)" by (rule nearest_double_upper [OF assms])
  also have "\<dots> = 2 * 2 powi ilog2 x" by (simp add: power_int_add)
  also have "\<dots> \<le> 2 * x" using ilog2_bounds(1) [OF assms] by simp
  finally show ?thesis .
qed

lemma to_double_0: "to_double 0 = Some 0"
  by (simp add: to_double_def nearest_double_def)

lemma to_double_bounded:
  assumes "0 \<le> x" and "x < 2 ^ 1023"
  shows "\<exists>r. to_double x = Some r \<and> 0 \<le> r \<and> r \<le> 2 * x"
proof (cases "x = 0")
  case True
  then show ?thesis by (simp add: to_double_0)
next
  case False
  with assms have x: "0 < x" by simp
  have nn: "0 \<le> nearest_double x" by (rule nearest_double_nonneg [OF x])
  have le: "nearest_double x \<le> 2 * x" by (rule nearest_double_le_twice [OF x])
  also have "2 * x < 2 * 2 ^ 1023" using assms(2) by simp
  finally have "nearest_double x < 2 ^ 1024" by simp
  with nn have "to_double x = Some (nearest_double x)"
    by (simp add: to_double_def Let_def)
  with nn le show ?thesis by simp
qed

lemma nearest_double_exact_int:
  assumes "0 < n" and "n \<le> 2 ^ 53"
  shows "nearest_double (of_int n) = of_int n"
proof -
  let ?x = "of_int n :: rat"
  let ?e = "ilog2 ?x"
  have x: "0 < ?x" using assms(1) by simp
  have "(2::rat) powi 0 \<le> ?x" using assms(1) by simp
  also have "?x < 2 powi (?e + 1)" by (rule ilog2_bounds(2) [OF x])
  finally have "0 < ?e + 1" by (rule powi2_less_cancel)
  then have e0: "0 \<le> ?e" by simp
  have "?x \<le> of_int (2 ^ 53)" using assms(2) by (simp only: of_int_le_iff)
  then have x53: "?x \<le> 2 powi 53" by simp
  have "2 powi ?e \<le> ?x" by (rule ilog2_bounds(1) [OF x])
  also note x53
  finally have e53: "?e \<le> 53" by (rule powi2_le_cancel)
  have q: "max (?e - 52) (- 1074) = ?e - 52" using e0 by simp
  have unf: "nearest_double ?x = of_int (round_half_even (?x / 2 powi (?e - 52))) * 2 powi (?e - 52)"
    unfolding nearest_double_pos_unfold [OF x] q ..
  show ?thesis
  proof (cases "?e \<le> 52")
    case True
    define k where "k = nat (52 - ?e)"
    have k: "?e - 52 = - int k" using True by (simp add: k_def)
    have "?x / 2 powi (?e - 52) = ?x * 2 ^ k"
      by (simp add: k power_int_minus_divide)
    also have "\<dots> = of_int (n * 2 ^ k)" by simp
    finally have "round_half_even (?x / 2 powi (?e - 52)) = n * 2 ^ k"
      by (simp only: round_half_even_of_int)
    then have "nearest_double ?x = of_int (n * 2 ^ k) * 2 powi (- int k)"
      by (simp only: unf k)
    also have "\<dots> = ?x" by (simp add: power_int_minus_divide)
    finally show ?thesis .
  next
    case False
    with e53 have e: "?e = 53" by simp
    have "(2::rat) powi 53 \<le> ?x" using ilog2_bounds(1) [OF x] by (simp only: e)
    with x53 have xe: "?x = 2 powi 53" by simp
    have "?x / 2 powi (?e - 52) = ?x / 2" by (simp add: e)
    also have "\<dots> = 2 powi 53 / 2" by (simp only: xe)
    also have "\<dots> = of_int (2 ^ 52)" by simp
    finally have "round_half_even (?x / 2 powi (?e - 52)) = 2 ^ 52"
      by (simp only: round_half_even_of_int)
    then have "nearest_double ?x = of_int (2 ^ 52) * 2 powi (53 - 52)"
      by (simp only: unf e)
    also have "\<dots> = 2 powi 53" by simp
    finally show ?thesis by (simp only: xe)
  qed
qed


lemma to_double_exact_int:
  assumes "0 < n" and "n \<le> 2 ^ 53"
  shows "to_double (of_int n) = Some (of_int n)"
proof -
  have "(of_int n :: rat) \<le> of_int (2 ^ 53)" using assms(2) by (simp only: of_int_le_iff)
  then have "(of_int n :: rat) < 2 ^ 1024" by simp
  with assms(1) show ?thesis
    by (simp add: to_double_def nearest_double_exact_int [OF assms])
qed

lemma int_true_div_ge_1:
  assumes "0 < b" and "b \<le> a" and "a < 2 ^ 1023"
  shows "\<exists>r. int_true_div a b = Inr r \<and> 1 \<le> r"
proof -
  let ?x = "of_int a / of_int b :: rat"
  have b: "(0::rat) < of_int b" using assms(1) by simp
  have "(of_int b :: rat) \<le> of_int a" using assms(2) by (simp only: of_int_le_iff)
  with b have x1: "1 \<le> ?x" by (simp add: le_divide_eq)
  have "(1::rat) \<le> of_int b" using assms(1) by (simp add: int_one_le_iff_zero_less)
  moreover have a0: "(0::rat) \<le> of_int a" using assms(1,2) by simp
  ultimately have "?x \<le> of_int a / 1" by (intro divide_left_mono) simp_all
  moreover have "(of_int a :: rat) < of_int (2 ^ 1023)" using assms(3) by (simp only: of_int_less_iff)
  ultimately have "?x < 2 ^ 1023" by simp
  with x1 obtain r where r: "to_double ?x = Some r"
    using to_double_bounded [of ?x] by auto
  then have "r = nearest_double ?x"
    by (simp add: to_double_def Let_def split: if_splits)
  with nearest_double_ge_1 [OF x1] have "1 \<le> r" by simp
  with r assms(1) show ?thesis by (simp add: int_true_div_def)
qed

lemma get_target_size_positive:
  assumes "0 < ow" "0 < oh" "0 < tw" "0 < th"
    and "get_target_size (ow, oh) (tw, th) keep no_up = Inr (w, h)"
  shows "1 \<le> w \<and> 1 \<le> h"
  using assms
  by (auto simp: get_target_size_def py_max_def py_min_def Let_def split: sum.splits if_splits)


lemma int_true_div_bounded:
  assumes "0 < b" and "0 < a" and "a < 2 ^ 500"
  shows "\<exists>r. int_true_div a b = Inr r \<and> 0 \<le> r \<and> r \<le> 2 ^ 501"
proof -
  let ?x = "of_int a / of_int b :: rat"
  have a0: "(0::rat) \<le> of_int a" using assms(2) by simp
  have x0: "0 \<le> ?x" using assms(1,2) by simp
  have "(1::rat) \<le> of_int b" using assms(1) by (simp add: int_one_le_iff_zero_less)
  with a0 have "?x \<le> of_int a / 1" by (intro divide_left_mono) simp_all
  moreover have "(of_int a :: rat) < of_int (2 ^ 500)"
    using assms(3) by (simp only: of_int_less_iff)
  ultimately have xb: "?x < 2 ^ 500" by simp
  then have "?x < 2 ^ 1023" by simp
  with x0 obtain r where r: "to_double ?x = Some r" "0 \<le> r" "r \<le> 2 * ?x"
    using to_double_bounded [of ?x] by blast
  from r(3) xb have "r \<le> 2 ^ 501" by simp
  with r(1,2) assms(1) show ?thesis by (simp add: int_true_div_def)
qed

lemma int_mul_float_finite:
  assumes "0 < n" and "n < 2 ^ 500" and "0 \<le> s" and "s \<le> 2 ^ 501"
  shows "\<exists>r. int_mul_float n s = Inr (Finite r)"
proof -
  have n0: "(0::rat) \<le> of_int n" using assms(1) by simp
  have "(of_int n :: rat) < of_int (2 ^ 500)" using assms(2) by (simp only: of_int_less_iff)
  then have nb: "(of_int n :: rat) < 2 ^ 500" by simp
  then have "(of_int n :: rat) < 2 ^ 1023" by simp
  with n0 obtain x where x: "to_double (of_int n) = Some x" "0 \<le> x" "x \<le> 2 * of_int n"
    using to_double_bounded [of "of_int n"] by blast
  from x(3) nb have xb: "x \<le> 2 ^ 501" by simp
  have p0: "0 \<le> x * s" using x(2) assms(3) by simp
  have "x * s \<le> 2 ^ 501 * 2 ^ 501"
    using xb assms(4) x(2) assms(3) by (intro mult_mono) simp_all
  then have "x * s < 2 ^ 1023" by simp
  with p0 obtain r where "to_double (x * s) = Some r"
    using to_double_bounded [of "x * s"] by blast
  with x(1) show ?thesis
    by (simp add: int_mul_float_def int_to_float_def float_mul_def)
qed

lemma get_target_size_returns:
  assumes "0 < ow" "ow < 2 ^ 500" "0 < oh" "oh < 2 ^ 500"
    and "0 < tw" "tw < 2 ^ 500" "0 < th" "th < 2 ^ 500"
  shows "\<exists>w h. get_target_size (ow, oh) (tw, th) keep no_up = Inr (w, h)"
proof (cases keep)
  case False
  then show ?thesis by (simp add: get_target_size_def)
next
  case True
  obtain sw where sw: "int_true_div tw ow = Inr sw" "0 \<le> sw" "sw \<le> 2 ^ 501"
    using int_true_div_bounded [OF assms(1) assms(5) assms(6)] by blast
  obtain sh where sh: "int_true_div th oh = Inr sh" "0 \<le> sh" "sh \<le> 2 ^ 501"
    using int_true_div_bounded [OF assms(3) assms(7) assms(8)] by blast
  define scale where "scale = (if no_up then py_min (py_min sw sh) 1 else py_min sw sh)"
  have s0: "0 \<le> scale" and sb: "scale \<le> 2 ^ 501"
    using sw(2,3) sh(2,3) by (auto simp: scale_def py_min_def)
  obtain pw where pw: "int_mul_float ow scale = Inr (Finite pw)"
    using int_mul_float_finite [OF assms(1) assms(2) s0 sb] by blast
  obtain ph where ph: "int_mul_float oh scale = Inr (Finite ph)"
    using int_mul_float_finite [OF assms(3) assms(4) s0 sb] by blast
  have "get_target_size (ow, oh) (tw, th) True no_up =
      Inr (py_max 1 (round_half_even pw), py_max 1 (round_half_even ph))"
    using assms(1) assms(3) pw ph
    by (simp add: get_target_size_def sw(1) sh(1) Let_def scale_def)
  with True show ?thesis by simp
qed

lemma nearest_double_1: "nearest_double 1 = 1"
  using nearest_double_exact_int [of 1] by simp

lemma ilog2_eqI:
  assumes "0 < x" and "2 powi e \<le> x" and "x < 2 powi (e + 1)"
  shows "ilog2 x = e"
proof -
  have "2 powi ilog2 x \<le> x" by (rule ilog2_bounds(1) [OF assms(1)])
  with assms(3) have "(2::rat) powi ilog2 x < 2 powi (e + 1)" by simp
  then have up: "ilog2 x < e + 1" by (rule powi2_less_cancel)
  have "x < 2 powi (ilog2 x + 1)" by (rule ilog2_bounds(2) [OF assms(1)])
  with assms(2) have "(2::rat) powi e < 2 powi (ilog2 x + 1)" by simp
  then have "e < ilog2 x + 1" by (rule powi2_less_cancel)
  with up show ?thesis by simp
qed

lemma nearest_double_2_53_plus_1: "nearest_double 9007199254740993 = 9007199254740992"
proof -
  have e: "ilog2 9007199254740993 = 53"
    by (rule ilog2_eqI) simp_all
  have fl: "\<lfloor>9007199254740993 / 2 :: rat\<rfloor> = 4503599627370496"
    by (simp add: floor_eq_iff)
  have "round_half_even (9007199254740993 / 2) = 4503599627370496"
    by (simp add: round_half_even_def Let_def fl)
  then show ?thesis
    by (simp add: nearest_double_def e)
qed

section \<open>Properties of the batch run\<close>

lemma image_save_frame:
  assumes "image_save c w resized output_name kw = (res, w')"
  shows "input_dir w' = input_dir w" and "output_dir w' = output_dir w"
    and "x \<noteq> output_name \<Longrightarrow> output_files w' x = output_files w x"
  using assms
  by (auto simp: image_save_def log_call_def Let_def split: option.splits prod.splits)

lemma image_save_success:
  assumes "image_save c w resized output_name kw = (None, w')"
  shows "output_files w' output_name = Some (File (WebP resized kw))"
  using assms
  by (auto simp: image_save_def log_call_def Let_def split: option.splits prod.splits)

lemma process_image_frame:
  assumes "process_image c w input_path output_name target_size qual keep no_up lossl = (res, w')"
  shows "input_dir w' = input_dir w" and "output_dir w' = output_dir w"
    and "x \<noteq> output_name \<Longrightarrow> output_files w' x = output_files w x"
  using assms
  by (auto simp: process_image_def log_call_def Let_def
      split: sum.splits if_splits dest: image_save_frame)

lemma process_image_success:
  assumes "process_image c w input_path output_name target_size qual keep no_up lossl = (None, w')"
  shows "\<exists>img target resized kw.
           image_open c (snd input_path) = Inr img \<and>
           get_target_size (img_size img) target_size keep no_up = Inr target \<and>
           transpose_resize c img target = Inr resized \<and>
           kw_icc_profile kw = info_icc_profile img \<and>
           kw_format kw = ''WEBP'' \<and> kw_quality kw = qual \<and> kw_lossless kw = lossl \<and>
           kw_method kw = 6 \<and>
           output_files w' output_name = Some (File (WebP resized kw))"
  using assms
  by (auto simp: process_image_def Let_def split: sum.splits if_splits dest!: image_save_success)


lemma loop_body_skip:
  assumes "output_files (run_world r) (output_name_of f) \<noteq> None" and "\<not> overwrite a"
  shows "loop_body c a r f =
    r\<lparr>skipped := skipped r + 1, outcomes := outcomes r @ [(fst f, Skipped)]\<rparr>"
  using assms by (simp add: loop_body_def)

lemma loop_body_processed:
  assumes "output_files (run_world r) (output_name_of f) = None \<or> overwrite a"
    and "process_image c (run_world r) f (output_name_of f) (width a, height a)
           (quality a) (keep_aspect_ratio a) (no_upscale a) (lossless a) = (None, w')"
  shows "loop_body c a r f =
    r\<lparr>run_world := w', processed := processed r + 1,
      outcomes := outcomes r @ [(fst f, Processed)]\<rparr>"
  using assms by (auto simp: loop_body_def)

lemma loop_body_failed:
  assumes "output_files (run_world r) (output_name_of f) = None \<or> overwrite a"
    and "process_image c (run_world r) f (output_name_of f) (width a, height a)
           (quality a) (keep_aspect_ratio a) (no_upscale a) (lossless a) = (Some e, w')"
  shows "loop_body c a r f =
    r\<lparr>run_world := w', errors := errors r + 1,
      outcomes := outcomes r @ [(fst f, Failed e)]\<rparr>"
  using assms by (auto simp: loop_body_def)

lemma loop_body_cases:
  obtains (skip) "output_files (run_world r) (output_name_of f) \<noteq> None" "\<not> overwrite a"
      "loop_body c a r f =
         r\<lparr>skipped := skipped r + 1, outcomes := outcomes r @ [(fst f, Skipped)]\<rparr>"
  | (ok) w' where "output_files (run_world r) (output_name_of f) = None \<or> overwrite a"
      "process_image c (run_world r) f (output_name_of f) (width a, height a)
           (quality a) (keep_aspect_ratio a) (no_upscale a) (lossless a) = (None, w')"
      "loop_body c a r f =
         r\<lparr>run_world := w', processed := processed r + 1,
           outcomes := outcomes r @ [(fst f, Processed)]\<rparr>"
  | (fail) e w' where "output_files (run_world r) (output_name_of f) = None \<or> overwrite a"
      "process_image c (run_world r) f (output_name_of f) (width a, height a)
           (quality a) (keep_aspect_ratio a) (no_upscale a) (lossless a) = (Some e, w')"
      "loop_body c a r f =
         r\<lparr>run_world := w', errors := errors r + 1,
           outcomes := outcomes r @ [(fst f, Failed e)]\<rparr>"
proof (cases "output_files (run_world r) (output_name_of f) \<noteq> None \<and> \<not> overwrite a")
  case True
  then show ?thesis using skip loop_body_skip by blast
next
  case False
  then have nk: "output_files (run_world r) (output_name_of f) = None \<or> overwrite a" by blast
  obtain res w' where p: "process_image c (run_world r) f (output_name_of f) (width a, height a)
           (quality a) (keep_aspect_ratio a) (no_upscale a) (lossless a) = (res, w')"
    by (cases "process_image c (run_world r) f (output_name_of f) (width a, height a)
           (quality a) (keep_aspect_ratio a) (no_upscale a) (lossless a)")
  show ?thesis
  proof (cases res)
    case None
    with p nk show ?thesis using ok loop_body_processed by blast
  next
    case (Some e)
    with p nk show ?thesis using fail loop_body_failed by blast
  qed
qed

lemma loop_body_outcomes:
  "\<exists>oc. outcomes (loop_body c a r f) = outcomes r @ [(fst f, oc)]"
  by (cases rule: loop_body_cases [of r f a c]) simp_all

lemma loop_body_counters:
  "processed (loop_body c a r f) + skipped (loop_body c a r f) + errors (loop_body c a r f)
     = processed r + skipped r + errors r + 1"
  by (cases rule: loop_body_cases [of r f a c]) simp_all

lemma loop_outcomes:
  "\<exists>xs. outcomes (foldl (loop_body c a) r fs) = outcomes r @ xs \<and> map fst xs = map fst fs"
proof (induction fs arbitrary: r)
  case Nil
  then show ?case by simp
next
  case (Cons f fs)
  obtain oc where oc: "outcomes (loop_body c a r f) = outcomes r @ [(fst f, oc)]"
    using loop_body_outcomes by blast
  obtain xs where xs: "outcomes (foldl (loop_body c a) (loop_body c a r f) fs)
      = outcomes (loop_body c a r f) @ xs" "map fst xs = map fst fs"
    using Cons.IH by blast
  have "outcomes (foldl (loop_body c a) r (f # fs)) = outcomes r @ ((fst f, oc) # xs)"
    using oc xs(1) by simp
  moreover have "map fst ((fst f, oc) # xs) = map fst (f # fs)" using xs(2) by simp
  ultimately show ?case by blast
qed

lemma loop_counters:
  "processed (foldl (loop_body c a) r fs) + skipped (foldl (loop_body c a) r fs)
     + errors (foldl (loop_body c a) r fs)
   = processed r + skipped r + errors r + length fs"
proof (induction fs arbitrary: r)
  case Nil
  then show ?case by simp
next
  case (Cons f fs)
  show ?case using Cons.IH [of "loop_body c a r f"] loop_body_counters [of c a r f] by simp
qed

lemma last_outcome_processed:
  assumes "last (outcomes (loop_body c a r f)) = (fst f, Processed)"
  shows "\<exists>w'. process_image c (run_world r) f (output_name_of f) (width a, height a)
           (quality a) (keep_aspect_ratio a) (no_upscale a) (lossless a) = (None, w') \<and>
         run_world (loop_body c a r f) = w'"
  using assms by (cases rule: loop_body_cases [of r f a c]) simp_all

lemma last_outcome_not_skipped:
  assumes "overwrite a"
  shows "last (outcomes (loop_body c a r f)) \<noteq> (fst f, Skipped)"
  using assms by (cases rule: loop_body_cases [of r f a c]) simp_all

lemma main_state_after:
  assumes "input_dir w = Some entries" and "mkdir w = Inr w1" and "iterdir_error w = None"
  shows "snd (main c a w) = state_after c a w1 (candidate_files entries)"
    and "fst (main c a w)
      = Inr (if errors (state_after c a w1 (candidate_files entries)) \<noteq> 0 then 1 else 0)"
  using assms by (simp_all add: main_def state_after_def Let_def start_def)

lemma state_after_snoc:
  "state_after c a w (pre @ f # post) =
     foldl (loop_body c a) (loop_body c a (state_after c a w pre) f) post"
  by (simp add: state_after_def)

lemma state_after_snoc1:
  "state_after c a w (pre @ [f]) = loop_body c a (state_after c a w pre) f"
  by (simp add: state_after_def)

lemma state_after_outcomes:
  "map fst (outcomes (state_after c a w fs)) = map fst fs"
proof -
  obtain xs where "outcomes (state_after c a w fs)
      = outcomes (start w) @ xs" "map fst xs = map fst fs"
    unfolding state_after_def using loop_outcomes by blast
  then show ?thesis by (simp add: start_def)
qed

lemma state_after_length: "length (outcomes (state_after c a w fs)) = length fs"
  using state_after_outcomes [of c a w fs] by (metis length_map)

lemma state_after_counters:
  "processed (state_after c a w fs) + skipped (state_after c a w fs)
     + errors (state_after c a w fs) = length fs"
  unfolding state_after_def using loop_counters [of c a _ fs] by (simp add: start_def)

lemma outcome_at:
  "outcomes (state_after c a w (pre @ f # post)) ! length pre =
     last (outcomes (loop_body c a (state_after c a w pre) f))"
proof -
  let ?r = "state_after c a w pre"
  obtain oc where oc: "outcomes (loop_body c a ?r f) = outcomes ?r @ [(fst f, oc)]"
    using loop_body_outcomes by blast
  obtain xs where xs: "outcomes (foldl (loop_body c a) (loop_body c a ?r f) post)
      = outcomes (loop_body c a ?r f) @ xs"
    using loop_outcomes by blast
  have "outcomes (state_after c a w (pre @ f # post)) = outcomes ?r @ (fst f, oc) # xs"
    by (simp add: state_after_snoc xs oc)
  then have "outcomes (state_after c a w (pre @ f # post)) ! length pre = (fst f, oc)"
    by (simp add: nth_append state_after_length)
  with oc show ?thesis by simp
qed

lemma loop_body_keeps_existing:
  assumes "\<not> overwrite a" and "output_files (run_world r) x = Some n"
  shows "output_files (run_world (loop_body c a r f)) x = Some n"
proof (cases rule: loop_body_cases [of r f a c])
  case skip
  then show ?thesis using assms(2) by simp
next
  case (ok w')
  with assms have "x \<noteq> output_name_of f" by auto
  then show ?thesis using ok(2,3) assms(2) process_image_frame(3) by simp
next
  case (fail e w')
  with assms have "x \<noteq> output_name_of f" by auto
  then show ?thesis using fail(2,3) assms(2) process_image_frame(3) by simp
qed

lemma loop_keeps_existing:
  assumes "\<not> overwrite a" and "output_files (run_world r) x = Some n"
  shows "output_files (run_world (foldl (loop_body c a) r fs)) x = Some n"
  using assms(2)
proof (induction fs arbitrary: r)
  case Nil
  then show ?case by simp
next
  case (Cons f fs)
  then show ?case using loop_body_keeps_existing [OF assms(1)] by simp
qed

lemma loop_refines_protocol:
  "outcomes (foldl (loop_body c a) r fs)
     = outcomes r @ fst (batch_protocol c a (run_world r) fs) \<and>
   run_world (foldl (loop_body c a) r fs) = snd (batch_protocol c a (run_world r) fs) \<and>
   processed (foldl (loop_body c a) r fs)
     = processed r + length (filter (\<lambda>p. snd p = Processed) (fst (batch_protocol c a (run_world r) fs))) \<and>
   skipped (foldl (loop_body c a) r fs)
     = skipped r + length (filter (\<lambda>p. snd p = Skipped) (fst (batch_protocol c a (run_world r) fs))) \<and>
   errors (foldl (loop_body c a) r fs)
     = errors r + length (filter (\<lambda>p. is_failed (snd p)) (fst (batch_protocol c a (run_world r) fs)))"
proof (induction fs arbitrary: r)
  case Nil
  show ?case by simp
next
  case (Cons f fs)
  note IH = Cons.IH [of "loop_body c a r f"]
  show ?case
  proof (cases rule: loop_body_cases [of r f a c])
    case skip
    then show ?thesis using IH by (simp add: Let_def)
  next
    case (ok w')
    then show ?thesis using IH by (auto simp: Let_def)
  next
    case (fail e w')
    then show ?thesis using IH by (auto simp: Let_def)
  qed
qed

lemma state_after_protocol:
  "outcomes (state_after c a w fs) = fst (batch_protocol c a w fs)"
  "run_world (state_after c a w fs) = snd (batch_protocol c a w fs)"
  "processed (state_after c a w fs)
     = length (filter (\<lambda>p. snd p = Processed) (fst (batch_protocol c a w fs)))"
  "skipped (state_after c a w fs)
     = length (filter (\<lambda>p. snd p = Skipped) (fst (batch_protocol c a w fs)))"
  "errors (state_after c a w fs)
     = length (filter (\<lambda>p. is_failed (snd p)) (fst (batch_protocol c a w fs)))"
  unfolding state_after_def
  using loop_refines_protocol [of c a "start w" fs] by (simp_all add: start_def)

lemma batch_protocol_length: "length (fst (batch_protocol c a w fs)) = length fs"
  by (induction fs arbitrary: w) (simp_all add: Let_def)

lemma batch_protocol_append:
  "batch_protocol c a w (xs @ ys) =
     (fst (batch_protocol c a w xs) @ fst (batch_protocol c a (snd (batch_protocol c a w xs)) ys),
      snd (batch_protocol c a (snd (batch_protocol c a w xs)) ys))"
  by (induction xs arbitrary: w) (simp_all add: Let_def)

lemma batch_protocol_at:
  "fst (batch_protocol c a w (pre @ f # post)) ! length pre =
     (fst f,
      if output_files (snd (batch_protocol c a w pre)) (output_name_of f) \<noteq> None \<and> \<not> overwrite a
      then Skipped
      else case fst (process_image c (snd (batch_protocol c a w pre)) f (output_name_of f)
                  (width a, height a) (quality a) (keep_aspect_ratio a) (no_upscale a) (lossless a)) of
             None \<Rightarrow> Processed
           | Some e \<Rightarrow> Failed e)"
  by (simp add: batch_protocol_append nth_append batch_protocol_length Let_def)

section \<open>The size resolver\<close>

text \<open>
  C1 (as amended). With \<open>keep_aspect_ratio\<close> set, an original of width 0 or height 0 is
  returned unchanged, for every target and either value of \<open>no_upscale\<close>. The check
  guards the two divisions and is made in that branch only.
\<close>

theorem zero_original_passes_through:
  assumes "ow = 0 \<or> oh = 0"
  shows "get_target_size (ow, oh) target True no_up = Inr (ow, oh)"
  using assms by (cases target) (auto simp: get_target_size_def)

theorem zero_original_passes_through_witness:
  "get_target_size (0, 5) (10, 10) True False = Inr (0, 5)"
  using zero_original_passes_through [of 0 5 "(10, 10)" False] by simp

text \<open>
  C1 as stated fails without \<open>keep_aspect_ratio\<close>: a zero-width original resolves to
  the target.
\<close>

theorem zero_original_replaced_by_target:
  "get_target_size (0, 5) (10, 10) False False = Inr (10, 10) \<and>
   get_target_size (0, 5) (10, 10) False False \<noteq> Inr (0, 5)"
  by (simp add: get_target_size_def)

text \<open>
  C2 (as amended). For positive original and target dimensions and either value of each
  flag, both components of a returned size are at least 1; and a size is returned
  whenever \<open>keep_aspect_ratio\<close> is off or all four dimensions are below \<open>2^500\<close>, where
  no float operation overflows.
\<close>

theorem resolved_at_least_one:
  assumes "0 < ow" and "0 < oh" and "0 < tw" and "0 < th"
  shows "(\<forall>w h. get_target_size (ow, oh) (tw, th) keep no_up = Inr (w, h) \<longrightarrow> 1 \<le> w \<and> 1 \<le> h) \<and>
         (\<not> keep \<or> (ow < 2 ^ 500 \<and> oh < 2 ^ 500 \<and> tw < 2 ^ 500 \<and> th < 2 ^ 500) \<longrightarrow>
            (\<exists>w h. get_target_size (ow, oh) (tw, th) keep no_up = Inr (w, h)))"
proof (intro conjI allI impI)
  fix w h
  assume "get_target_size (ow, oh) (tw, th) keep no_up = Inr (w, h)"
  with assms have "1 \<le> w \<and> 1 \<le> h" by (rule get_target_size_positive)
  then show "1 \<le> w" and "1 \<le> h" by simp_all
next
  assume b: "\<not> keep \<or> (ow < 2 ^ 500 \<and> oh < 2 ^ 500 \<and> tw < 2 ^ 500 \<and> th < 2 ^ 500)"
  show "\<exists>w h. get_target_size (ow, oh) (tw, th) keep no_up = Inr (w, h)"
  proof (cases keep)
    case False
    then show ?thesis by (simp add: get_target_size_def)
  next
    case True
    with b assms show ?thesis by (intro get_target_size_returns) simp_all
  qed
qed

theorem resolved_at_least_one_witness:
  "\<exists>w h. get_target_size (800, 600) (400, 400) True True = Inr (w, h) \<and> 1 \<le> w \<and> 1 \<le> h"
proof -
  have p: "(0::int) < 800" "(0::int) < 600" "(0::int) < 400" by simp_all
  have b: "\<not> True \<or> ((800::int) < 2 ^ 500 \<and> (600::int) < 2 ^ 500 \<and> (400::int) < 2 ^ 500 \<and> (400::int) < 2 ^ 500)"
    by simp
  from resolved_at_least_one [OF p(1) p(2) p(3) p(3), of True True] b
  show ?thesis by blast
qed

text \<open>
  C2 as stated fails for a zero-sized original under \<open>keep_aspect_ratio\<close>: the original
  is returned as it is, with its zero.
\<close>

theorem zero_original_resolves_to_zero:
  "get_target_size (0, 5) (10, 10) True False = Inr (0, 5) \<and> \<not> (1::int) \<le> 0"
  by (simp add: get_target_size_def)

text \<open>
  C4 (as amended). With both flags set, an original that fits in the target is returned
  exactly, provided its dimensions are positive and at most \<open>2^53\<close> (so that the
  conversion to a float is exact) and the target's are below \<open>2^1023\<close> (so that the
  two quotients do not overflow).
\<close>

theorem fits_within_target_unchanged:
  assumes "0 < ow" and "ow \<le> 2 ^ 53" and "0 < oh" and "oh \<le> 2 ^ 53"
    and "ow \<le> tw" and "tw < 2 ^ 1023" and "oh \<le> th" and "th < 2 ^ 1023"
  shows "get_target_size (ow, oh) (tw, th) True True = Inr (ow, oh)"
proof -
  obtain sw where sw: "int_true_div tw ow = Inr sw" "1 \<le> sw"
    using int_true_div_ge_1 [OF assms(1) assms(5) assms(6)] by blast
  obtain sh where sh: "int_true_div th oh = Inr sh" "1 \<le> sh"
    using int_true_div_ge_1 [OF assms(3) assms(7) assms(8)] by blast
  have scale: "py_min (py_min sw sh) 1 = 1"
    using sw(2) sh(2) by (simp add: py_min_def)
  have mw: "int_mul_float ow 1 = Inr (Finite (of_int ow))"
    by (simp add: int_mul_float_def int_to_float_def float_mul_def
        to_double_exact_int [OF assms(1) assms(2)])
  have mh: "int_mul_float oh 1 = Inr (Finite (of_int oh))"
    by (simp add: int_mul_float_def int_to_float_def float_mul_def
        to_double_exact_int [OF assms(3) assms(4)])
  show ?thesis
    using assms(1) assms(3)
    by (simp add: get_target_size_def sw(1) sh(1) scale mw mh round_half_even_of_int py_max_def)
qed

theorem fits_within_target_unchanged_witness:
  "get_target_size (200, 100) (400, 400) True True = Inr (200, 100)"
  using fits_within_target_unchanged [of 200 100 400 400] by simp

text \<open>
  C4 as stated fails beyond \<open>2^53\<close>: the width \<open>2^53 + 1\<close> fits its target, the scale
  is \<open>1.0\<close>, and the product \<open>original_w * scale\<close> is the float \<open>2^53\<close>.
\<close>

theorem large_original_not_exact:
  "get_target_size (9007199254740993, 1) (9007199254740993, 1) True True
     = Inr (9007199254740992, 1) \<and>
   get_target_size (9007199254740993, 1) (9007199254740993, 1) True True
     \<noteq> Inr (9007199254740993, 1)"
proof -
  have d: "to_double 1 = Some 1" by (simp add: to_double_def nearest_double_1)
  have b: "to_double 9007199254740993 = Some 9007199254740992"
    by (simp add: to_double_def nearest_double_2_53_plus_1)
  have c: "to_double 9007199254740992 = Some 9007199254740992"
    using to_double_exact_int [of 9007199254740992] by simp
  have r: "round_half_even 9007199254740992 = 9007199254740992"
    using round_half_even_of_int [of 9007199254740992] by simp
  have r1: "round_half_even 1 = 1"
    using round_half_even_of_int [of 1] by simp
  show ?thesis
    by (simp add: get_target_size_def int_true_div_def int_mul_float_def int_to_float_def
        float_mul_def py_min_def py_max_def d b c r r1)
qed

text \<open>
  C5. Without \<open>keep_aspect_ratio\<close> and with \<open>no_upscale\<close>, the result is the minimum of
  original and target on each axis, whatever the other axis is.
\<close>

theorem independent_axis_clamp:
  "get_target_size (ow, oh) (tw, th) False True = Inr (min ow tw, min oh th)"
  by (simp add: get_target_size_def py_min_def min_def)

theorem independent_axis_clamp_witness:
  "get_target_size (200, 900) (400, 400) False True = Inr (200, 400)"
  using independent_axis_clamp [of 200 900 400 400] by simp

text \<open>
  C6. With both flags off the result is the target, whatever the original is.
\<close>

theorem fixed_target_verbatim:
  "get_target_size original target False False = Inr target"
  by (cases original, cases target) (simp add: get_target_size_def)

theorem fixed_target_verbatim_witness:
  "get_target_size (0, 7) (400, 300) False False = Inr (400, 300)"
  using fixed_target_verbatim [of "(0, 7)" "(400, 300)"] by simp

section \<open>The batch run\<close>

text \<open>
  C3 (as amended). For a run whose arguments \<open>parse_args\<close> accepted, the exit status is 1
  when the input directory does not exist, when making the output directory or listing
  the input directory raises (nothing catches that exception), or when \<open>process_image\<close>
  raised for at least one candidate that was not skipped. Otherwise it is 0: the input
  directory exists, the output directory is there or could be made, the listing
  succeeded, and no candidate failed, which includes the run with no candidate and the
  run whose candidates were only processed or skipped. Whether a candidate failed is read
  off the batch protocol, not off the counters of \<open>main\<close>.
\<close>

theorem exit_status_contract:
  "process_exit_status (fst (main c a w)) =
     (case input_dir w of
        None \<Rightarrow> 1
      | Some entries \<Rightarrow>
          (case mkdir w of
             Inl e \<Rightarrow> 1
           | Inr w1 \<Rightarrow>
               if iterdir_error w \<noteq> None then 1
               else if \<exists>p \<in> set (fst (batch_protocol c a w1 (candidate_files entries))).
                         is_failed (snd p)
                    then 1 else 0))"
proof (cases "input_dir w")
  case None
  then show ?thesis by (simp add: main_def)
next
  case (Some entries)
  show ?thesis
  proof (cases "mkdir w")
    case (Inl e)
    with Some show ?thesis by (simp add: main_def)
  next
    case (Inr w1)
    show ?thesis
    proof (cases "iterdir_error w")
      case (Some e)
      with \<open>input_dir w = Some entries\<close> Inr show ?thesis by (simp add: main_def)
    next
      case None
      let ?fs = "candidate_files entries"
      have st: "fst (main c a w) = Inr (if errors (state_after c a w1 ?fs) \<noteq> 0 then 1 else 0)"
        by (rule main_state_after(2) [OF \<open>input_dir w = Some entries\<close> Inr None])
      have "errors (state_after c a w1 ?fs) \<noteq> 0
          \<longleftrightarrow> (\<exists>p \<in> set (fst (batch_protocol c a w1 ?fs)). is_failed (snd p))"
        by (auto simp: state_after_protocol(5) filter_empty_conv)
      with \<open>input_dir w = Some entries\<close> Inr None show ?thesis by (simp add: st)
    qed
  qed
qed

theorem exit_status_contract_witness:
  "process_exit_status (fst (main example_codec example_args batch_world)) = 1 \<and>
   process_exit_status (fst (main example_codec example_args missing_world)) = 1 \<and>
   process_exit_status (fst (main example_codec example_args blocked_world)) = 1 \<and>
   process_exit_status (fst (main example_codec example_args rerun_world)) = 0 \<and>
   fst (batch_protocol example_codec example_args rerun_world [(''a.jpg'', File (Data ''IMG''))])
     = [(''a.jpg'', Skipped)] \<and>
   process_exit_status (fst (main example_codec example_args empty_world)) = 0"
proof -
  have i: "input_dir batch_world = Some
      [(''c.JPEG'', File (Data ''IMG'')), (''notes.txt'', File (Data ''hello'')),
       (''b.png'', File (Data ''garbage'')), (''sub.png'', Directory),
       (''a.jpg'', File (Data ''IMGsRGB''))]"
    "input_dir missing_world = None" "input_dir blocked_world = Some []"
    "input_dir rerun_world = Some [(''a.jpg'', File (Data ''IMG''))]"
    "input_dir empty_world = Some []"
    by (simp_all add: batch_world_def missing_world_def blocked_world_def rerun_world_def
        empty_world_def)
  have m: "mkdir batch_world = Inr (batch_world\<lparr>output_dir := DirEntry\<rparr>)"
    "mkdir blocked_world = Inl (OSError ''FileExistsError'')"
    "mkdir rerun_world = Inr rerun_world"
    "mkdir empty_world = Inr (empty_world\<lparr>output_dir := DirEntry\<rparr>)"
    by (simp_all add: mkdir_def batch_world_def blocked_world_def rerun_world_def
        empty_world_def)
  have l: "iterdir_error batch_world = None" "iterdir_error rerun_world = None"
    "iterdir_error empty_world = None"
    by (simp_all add: batch_world_def rerun_world_def empty_world_def)
  have b: "\<exists>p \<in> set (fst (batch_protocol example_codec example_args
        (batch_world\<lparr>output_dir := DirEntry\<rparr>)
        (candidate_files [(''c.JPEG'', File (Data ''IMG'')), (''notes.txt'', File (Data ''hello'')),
           (''b.png'', File (Data ''garbage'')), (''sub.png'', Directory),
           (''a.jpg'', File (Data ''IMGsRGB''))]))). is_failed (snd p)"
    by code_simp
  have cf: "candidate_files [(''a.jpg'', File (Data ''IMG''))] = [(''a.jpg'', File (Data ''IMG''))]"
    "candidate_files [] = []"
    by code_simp+
  have r: "fst (batch_protocol example_codec example_args rerun_world
      [(''a.jpg'', File (Data ''IMG''))]) = [(''a.jpg'', Skipped)]"
    by code_simp
  have e: "fst (batch_protocol example_codec example_args (empty_world\<lparr>output_dir := DirEntry\<rparr>)
      []) = []"
    by simp
  have 1: "process_exit_status (fst (main example_codec example_args batch_world)) = 1"
    using exit_status_contract [of example_codec example_args batch_world] b
    by (simp add: i m l del: batch_protocol.simps)
  have 2: "process_exit_status (fst (main example_codec example_args missing_world)) = 1"
    using exit_status_contract [of example_codec example_args missing_world] by (simp add: i)
  have 3: "process_exit_status (fst (main example_codec example_args blocked_world)) = 1"
    using exit_status_contract [of example_codec example_args blocked_world]
    by (simp add: i m)
  have 4: "process_exit_status (fst (main example_codec example_args rerun_world)) = 0"
    using exit_status_contract [of example_codec example_args rerun_world]
    by (simp add: i m l cf r del: batch_protocol.simps)
  have 5: "process_exit_status (fst (main example_codec example_args empty_world)) = 0"
    using exit_status_contract [of example_codec example_args empty_world]
    by (simp add: i m l cf e del: batch_protocol.simps)
  from 1 2 3 4 r 5 show ?thesis by blast
qed

text \<open>
  C3 as stated fails when the output directory cannot be made: the input directory
  exists and is empty, so no file failed, but there is a regular file at the output
  path, \<open>mkdir\<close> raises \<open>FileExistsError\<close> outside any \<open>try\<close>, and the process ends
  with status 1.
\<close>

theorem exit_status_one_without_failure:
  "input_dir blocked_world = Some [] \<and>
   candidate_files [] = [] \<and>
   outcomes (snd (main example_codec example_args blocked_world)) = [] \<and>
   fst (main example_codec example_args blocked_world) = Inl (OSError ''FileExistsError'') \<and>
   process_exit_status (fst (main example_codec example_args blocked_world)) = 1"
  by (simp add: main_def mkdir_def blocked_world_def start_def candidate_files_def)

text \<open>
  C7. When the loop is reached (the input directory exists, the output directory is
  there or could be made, and the listing succeeded), the run prints exactly one
  outcome for each candidate, in the sorted order, and its outcomes and its final world
  are those of the batch protocol: a candidate is \<open>Skipped\<close> when its output is there
  and \<open>overwrite\<close> is off; otherwise \<open>process_image\<close> is called on it, in the world the
  candidates before it left, and the candidate is \<open>Processed\<close> when the call returns
  and \<open>Failed e\<close> when it raises \<open>e\<close>. So a failure is recorded for its own file only,
  and a later candidate that can be converted is converted. The three counters count the
  outcomes of each kind and add up to the number of candidates.
\<close>

theorem failure_never_aborts_batch:
  assumes "input_dir w = Some entries" and "mkdir w = Inr w1" and "iterdir_error w = None"
  shows "outcomes (snd (main c a w)) = fst (batch_protocol c a w1 (candidate_files entries)) \<and>
    run_world (snd (main c a w)) = snd (batch_protocol c a w1 (candidate_files entries)) \<and>
    map fst (outcomes (snd (main c a w))) = map fst (candidate_files entries) \<and>
    (\<forall>pre f post. candidate_files entries = pre @ f # post \<longrightarrow>
       outcomes (snd (main c a w)) ! length pre =
         (fst f,
          if output_files (snd (batch_protocol c a w1 pre)) (output_name_of f) \<noteq> None
               \<and> \<not> overwrite a
          then Skipped
          else case fst (process_image c (snd (batch_protocol c a w1 pre)) f (output_name_of f)
                      (width a, height a) (quality a) (keep_aspect_ratio a) (no_upscale a)
                      (lossless a)) of
                 None \<Rightarrow> Processed
               | Some e \<Rightarrow> Failed e)) \<and>
    processed (snd (main c a w))
      = length (filter (\<lambda>p. snd p = Processed) (outcomes (snd (main c a w)))) \<and>
    skipped (snd (main c a w))
      = length (filter (\<lambda>p. snd p = Skipped) (outcomes (snd (main c a w)))) \<and>
    errors (snd (main c a w))
      = length (filter (\<lambda>p. is_failed (snd p)) (outcomes (snd (main c a w)))) \<and>
    processed (snd (main c a w)) + skipped (snd (main c a w)) + errors (snd (main c a w))
      = length (candidate_files entries)"
proof -
  let ?fs = "candidate_files entries"
  have m: "snd (main c a w) = state_after c a w1 ?fs"
    by (rule main_state_after(1) [OF assms])
  have 1: "outcomes (snd (main c a w)) = fst (batch_protocol c a w1 ?fs)"
    by (simp only: m state_after_protocol(1))
  have 2: "run_world (snd (main c a w)) = snd (batch_protocol c a w1 ?fs)"
    by (simp only: m state_after_protocol(2))
  have 3: "map fst (outcomes (snd (main c a w))) = map fst ?fs"
    by (simp only: m state_after_outcomes)
  have 4: "\<forall>pre f post. ?fs = pre @ f # post \<longrightarrow>
       outcomes (snd (main c a w)) ! length pre =
         (fst f,
          if output_files (snd (batch_protocol c a w1 pre)) (output_name_of f) \<noteq> None
               \<and> \<not> overwrite a
          then Skipped
          else case fst (process_image c (snd (batch_protocol c a w1 pre)) f (output_name_of f)
                      (width a, height a) (quality a) (keep_aspect_ratio a) (no_upscale a)
                      (lossless a)) of
                 None \<Rightarrow> Processed
               | Some e \<Rightarrow> Failed e)"
  proof (intro allI impI)
    fix pre f post
    assume "?fs = pre @ f # post"
    then have "outcomes (snd (main c a w)) = fst (batch_protocol c a w1 (pre @ f # post))"
      by (simp only: 1)
    then show "outcomes (snd (main c a w)) ! length pre =
         (fst f,
          if output_files (snd (batch_protocol c a w1 pre)) (output_name_of f) \<noteq> None
               \<and> \<not> overwrite a
          then Skipped
          else case fst (process_image c (snd (batch_protocol c a w1 pre)) f (output_name_of f)
                      (width a, height a) (quality a) (keep_aspect_ratio a) (no_upscale a)
                      (lossless a)) of
                 None \<Rightarrow> Processed
               | Some e \<Rightarrow> Failed e)"
      by (simp only: batch_protocol_at)
  qed
  have 5: "processed (snd (main c a w))
      = length (filter (\<lambda>p. snd p = Processed) (outcomes (snd (main c a w))))"
    by (simp only: m state_after_protocol(1) state_after_protocol(3))
  have 6: "skipped (snd (main c a w))
      = length (filter (\<lambda>p. snd p = Skipped) (outcomes (snd (main c a w))))"
    by (simp only: m state_after_protocol(1) state_after_protocol(4))
  have 7: "errors (snd (main c a w))
      = length (filter (\<lambda>p. is_failed (snd p)) (outcomes (snd (main c a w))))"
    by (simp only: m state_after_protocol(1) state_after_protocol(5))
  have 8: "processed (snd (main c a w)) + skipped (snd (main c a w)) + errors (snd (main c a w))
      = length ?fs"
    by (simp only: m state_after_counters)
  from 1 2 3 4 5 6 7 8 show ?thesis by blast
qed

theorem failure_never_aborts_batch_witness:
  "outcomes (snd (main example_codec example_args batch_world))
     = [(''a.jpg'', Processed),
        (''b.png'', Failed (LibraryError ''cannot identify image file'')),
        (''c.JPEG'', Processed)] \<and>
   outcomes (snd (main example_codec example_args batch_world)) ! 2 = (''c.JPEG'', Processed) \<and>
   output_files (run_world (snd (main example_codec example_args batch_world))) ''a.webp'' \<noteq> None \<and>
   output_files (run_world (snd (main example_codec example_args batch_world))) ''b.webp'' = None \<and>
   output_files (run_world (snd (main example_codec example_args batch_world))) ''c.webp'' \<noteq> None \<and>
   processed (snd (main example_codec example_args batch_world)) = 2 \<and>
   skipped (snd (main example_codec example_args batch_world)) = 0 \<and>
   errors (snd (main example_codec example_args batch_world)) = 1"
proof -
  let ?es = "[(''c.JPEG'', File (Data ''IMG'')), (''notes.txt'', File (Data ''hello'')),
              (''b.png'', File (Data ''garbage'')), (''sub.png'', Directory),
              (''a.jpg'', File (Data ''IMGsRGB''))]"
  let ?a = "(''a.jpg'', File (Data ''IMGsRGB''))"
  let ?b = "(''b.png'', File (Data ''garbage''))"
  let ?c = "(''c.JPEG'', File (Data ''IMG''))"
  let ?w1 = "batch_world\<lparr>output_dir := DirEntry\<rparr>"
  let ?R = "snd (main example_codec example_args batch_world)"
  have d: "input_dir batch_world = Some ?es" by (simp add: batch_world_def)
  have mk: "mkdir batch_world = Inr ?w1" by (simp add: mkdir_def batch_world_def)
  have ls: "iterdir_error batch_world = None" by (simp add: batch_world_def)
  have cf: "candidate_files ?es = [?a, ?b] @ ?c # []" by code_simp
  have os: "fst (batch_protocol example_codec example_args ?w1 (candidate_files ?es))
      = [(''a.jpg'', Processed),
         (''b.png'', Failed (LibraryError ''cannot identify image file'')),
         (''c.JPEG'', Processed)]"
    by code_simp
  have fa: "output_files (snd (batch_protocol example_codec example_args ?w1
      (candidate_files ?es))) ''a.webp'' \<noteq> None"
    by code_simp
  have fb: "output_files (snd (batch_protocol example_codec example_args ?w1
      (candidate_files ?es))) ''b.webp'' = None"
    by code_simp
  have fc: "output_files (snd (batch_protocol example_codec example_args ?w1
      (candidate_files ?es))) ''c.webp'' \<noteq> None"
    by code_simp
  have nc: "output_files (snd (batch_protocol example_codec example_args ?w1 [?a, ?b]))
        (output_name_of ?c) = None"
    by code_simp
  have pc: "fst (process_image example_codec
        (snd (batch_protocol example_codec example_args ?w1 [?a, ?b])) ?c (output_name_of ?c)
        (width example_args, height example_args) (quality example_args)
        (keep_aspect_ratio example_args) (no_upscale example_args) (lossless example_args))
      = None"
    by code_simp
  note t = failure_never_aborts_batch [OF d mk ls, of example_codec example_args]
  from t have 1: "outcomes ?R
      = fst (batch_protocol example_codec example_args ?w1 (candidate_files ?es))" by blast
  from t have 2: "run_world ?R
      = snd (batch_protocol example_codec example_args ?w1 (candidate_files ?es))" by blast
  from t cf have "outcomes ?R ! length [?a, ?b] =
         (fst ?c,
          if output_files (snd (batch_protocol example_codec example_args ?w1 [?a, ?b]))
               (output_name_of ?c) \<noteq> None \<and> \<not> overwrite example_args
          then Skipped
          else case fst (process_image example_codec
                      (snd (batch_protocol example_codec example_args ?w1 [?a, ?b])) ?c
                      (output_name_of ?c) (width example_args, height example_args)
                      (quality example_args) (keep_aspect_ratio example_args)
                      (no_upscale example_args) (lossless example_args)) of
                 None \<Rightarrow> Processed
               | Some e \<Rightarrow> Failed e)"
    by blast
  with nc pc have 4: "outcomes ?R ! 2 = (''c.JPEG'', Processed)"
    by (simp add: numeral_2_eq_2 del: batch_protocol.simps)
  from t have 5: "processed ?R = length (filter (\<lambda>p. snd p = Processed) (outcomes ?R))"
    by blast
  from t have 6: "skipped ?R = length (filter (\<lambda>p. snd p = Skipped) (outcomes ?R))"
    by blast
  from t have 7: "errors ?R = length (filter (\<lambda>p. is_failed (snd p)) (outcomes ?R))"
    by blast
  have o: "outcomes ?R = [(''a.jpg'', Processed),
        (''b.png'', Failed (LibraryError ''cannot identify image file'')),
        (''c.JPEG'', Processed)]"
    by (simp only: 1 os)
  have p2: "processed ?R = 2" by (simp add: 5 o)
  have s0: "skipped ?R = 0" by (simp add: 6 o)
  have e1: "errors ?R = 1" by (simp add: 7 o)
  have ga: "output_files (run_world ?R) ''a.webp'' \<noteq> None" unfolding 2 by (rule fa)
  have gb: "output_files (run_world ?R) ''b.webp'' = None" unfolding 2 by (rule fb)
  have gc: "output_files (run_world ?R) ''c.webp'' \<noteq> None" unfolding 2 by (rule fc)
  from o 4 ga gb gc p2 s0 e1 show ?thesis by blast
qed

text \<open>
  C8. In a run that reaches the loop, without \<open>overwrite\<close>, a candidate \<open>f\<close> whose output path exists when the loop
  reaches it is recorded as \<open>Skipped\<close>; handling it leaves the world as it was (no file
  is written and no library call is made, so nothing is decoded or transformed); the
  loop goes on with the candidates after \<open>f\<close>; and the entry at the output path is
  still the same at the end of the run.
\<close>

theorem existing_output_skipped:
  assumes "input_dir w = Some entries"
    and "candidate_files entries = pre @ f # post"
    and "\<not> overwrite a"
    and "output_files (run_world (state_after c a w1 pre)) (output_name_of f) = Some n"
    and "mkdir w = Inr w1" and "iterdir_error w = None"
  shows "outcomes (snd (main c a w)) ! length pre = (fst f, Skipped) \<and>
    run_world (state_after c a w1 (pre @ [f])) = run_world (state_after c a w1 pre) \<and>
    snd (main c a w) =
      foldl (loop_body c a)
        ((state_after c a w1 pre)
           \<lparr>skipped := skipped (state_after c a w1 pre) + 1,
            outcomes := outcomes (state_after c a w1 pre) @ [(fst f, Skipped)]\<rparr>) post \<and>
    output_files (run_world (snd (main c a w))) (output_name_of f) = Some n"
proof -
  let ?r = "state_after c a w1 pre"
  have ex: "output_files (run_world ?r) (output_name_of f) \<noteq> None" using assms(4) by simp
  have step: "loop_body c a ?r f =
      ?r\<lparr>skipped := skipped ?r + 1, outcomes := outcomes ?r @ [(fst f, Skipped)]\<rparr>"
    by (rule loop_body_skip [OF ex assms(3)])
  have m: "snd (main c a w) = state_after c a w1 (pre @ f # post)"
    by (simp only: main_state_after(1) [OF assms(1) assms(5) assms(6)] assms(2))
  have "outcomes (snd (main c a w)) ! length pre = last (outcomes (loop_body c a ?r f))"
    by (simp only: m outcome_at)
  then have 1: "outcomes (snd (main c a w)) ! length pre = (fst f, Skipped)"
    by (simp add: step)
  have 2: "run_world (state_after c a w1 (pre @ [f])) = run_world ?r"
    by (simp add: state_after_snoc1 step)
  have 3: "snd (main c a w) =
      foldl (loop_body c a)
        (?r\<lparr>skipped := skipped ?r + 1, outcomes := outcomes ?r @ [(fst f, Skipped)]\<rparr>) post"
    by (simp only: m state_after_snoc step)
  have "output_files (run_world (loop_body c a ?r f)) (output_name_of f) = Some n"
    by (rule loop_body_keeps_existing [OF assms(3) assms(4)])
  then have "output_files (run_world (foldl (loop_body c a) (loop_body c a ?r f) post))
      (output_name_of f) = Some n"
    by (rule loop_keeps_existing [OF assms(3)])
  then have "output_files (run_world (state_after c a w1 (pre @ f # post))) (output_name_of f)
      = Some n"
    by (simp only: state_after_snoc)
  then have 4: "output_files (run_world (snd (main c a w))) (output_name_of f) = Some n"
    by (simp only: m)
  from 1 2 3 4 show ?thesis by blast
qed

theorem existing_output_skipped_witness:
  "outcomes (snd (main example_codec example_args rerun_world)) ! 0 = (''a.jpg'', Skipped) \<and>
   output_files (run_world (snd (main example_codec example_args rerun_world))) ''a.webp''
     = Some (File (Data ''old'')) \<and>
   calls (run_world (state_after example_codec example_args rerun_world
     [(''a.jpg'', File (Data ''IMG''))])) = []"
proof -
  let ?f = "(''a.jpg'', File (Data ''IMG''))"
  have d: "input_dir rerun_world = Some [?f]" by (simp add: rerun_world_def)
  have cf: "candidate_files [?f] = [] @ ?f # []" by code_simp
  have nw: "\<not> overwrite example_args" by (simp add: example_args_def)
  have ex: "output_files (run_world (state_after example_codec example_args rerun_world []))
      (output_name_of ?f) = Some (File (Data ''old''))"
    by code_simp
  have o: "output_name_of ?f = ''a.webp''" by code_simp
  have c0: "calls (run_world (state_after example_codec example_args rerun_world [])) = []"
    by code_simp
  have mk: "mkdir rerun_world = Inr rerun_world" by (simp add: mkdir_def rerun_world_def)
  have ls: "iterdir_error rerun_world = None" by (simp add: rerun_world_def)
  note t = existing_output_skipped [OF d cf nw ex mk ls]
  from t have 1: "outcomes (snd (main example_codec example_args rerun_world))
      ! length ([] :: (string \<times> node) list) = (fst ?f, Skipped)"
    by blast
  from t have 2: "run_world (state_after example_codec example_args rerun_world ([] @ [?f]))
      = run_world (state_after example_codec example_args rerun_world [])"
    by blast
  from t have 4: "output_files (run_world (snd (main example_codec example_args rerun_world)))
      (output_name_of ?f) = Some (File (Data ''old''))"
    by blast
  from 1 2 4 o c0 show ?thesis by simp
qed

text \<open>
  C9. When \<open>process_image\<close> succeeds, the file at the output path is the encoded image
  and the profile it carries is the one of the opened input: none when the input had
  none, and otherwise the same bytes.
\<close>

theorem color_profile_propagated:
  assumes "fst (process_image c w input_path output_name target_size qual keep no_up lossl) = None"
  shows "\<exists>img encoded.
      image_open c (snd input_path) = Inr img \<and>
      output_files (snd (process_image c w input_path output_name target_size qual keep no_up lossl))
        output_name = Some (File encoded) \<and>
      carried_profile encoded = info_icc_profile img"
proof -
  let ?p = "process_image c w input_path output_name target_size qual keep no_up lossl"
  from assms have "?p = (None, snd ?p)" by (metis prod.collapse)
  then obtain img target resized kw where
    "image_open c (snd input_path) = Inr img"
    "kw_icc_profile kw = info_icc_profile img"
    "output_files (snd ?p) output_name = Some (File (WebP resized kw))"
    using process_image_success by blast
  then show ?thesis by (intro exI [of _ img] exI [of _ "WebP resized kw"]) simp
qed

theorem color_profile_propagated_witness:
  "(\<exists>encoded.
      output_files (snd (process_image example_codec same_stem_world
          (''a.png'', File (Data ''IMGsRGB'')) ''a.webp'' (400, 400) 80 False True False)) ''a.webp''
        = Some (File encoded) \<and>
      carried_profile encoded = Some ''sRGB'') \<and>
   (\<exists>encoded.
      output_files (snd (process_image example_codec same_stem_world
          (''a.jpg'', File (Data ''IMG'')) ''a.webp'' (400, 400) 80 False True False)) ''a.webp''
        = Some (File encoded) \<and>
      carried_profile encoded = None)"
proof -
  let ?p = "process_image example_codec same_stem_world
          (''a.png'', File (Data ''IMGsRGB'')) ''a.webp'' (400, 400) 80 False True False"
  let ?q = "process_image example_codec same_stem_world
          (''a.jpg'', File (Data ''IMG'')) ''a.webp'' (400, 400) 80 False True False"
  have ok: "fst ?p = None" "fst ?q = None" by code_simp+
  have op: "image_open example_codec (File (Data ''IMGsRGB''))
      = Inr \<lparr>img_size = (800, 600), info_icc_profile = Some ''sRGB'', pixels = []\<rparr>"
    by (simp add: example_codec_def)
  have oq: "image_open example_codec (File (Data ''IMG''))
      = Inr \<lparr>img_size = (800, 600), info_icc_profile = None, pixels = []\<rparr>"
    by (simp add: example_codec_def)
  from color_profile_propagated [OF ok(1)] op
  have 1: "\<exists>encoded. output_files (snd ?p) ''a.webp'' = Some (File encoded) \<and>
      carried_profile encoded = Some ''sRGB''" by auto
  from color_profile_propagated [OF ok(2)] oq
  have 2: "\<exists>encoded. output_files (snd ?q) ''a.webp'' = Some (File encoded) \<and>
      carried_profile encoded = None" by auto
  from 1 2 show ?thesis by blast
qed

text \<open>
  C10. In a run that reaches the loop, two candidates \<open>f1\<close> and \<open>f2\<close> with one stem, \<open>f1\<close> earlier in the sorted order,
  have the same output path. Without \<open>overwrite\<close>, if \<open>f1\<close> is recorded as
  \<open>Processed\<close> then \<open>f2\<close> is recorded as \<open>Skipped\<close>. With \<open>overwrite\<close>, \<open>f2\<close> is never
  skipped, and if it is recorded as \<open>Processed\<close> then right after it the output path
  holds the encoding of \<open>f2\<close>, whatever \<open>f1\<close> left there.
\<close>

theorem same_stem_collision:
  assumes "input_dir w = Some entries"
    and "candidate_files entries = pre @ f1 # mid @ f2 # post"
    and "path_stem (fst f1) = path_stem (fst f2)"
    and "mkdir w = Inr w1" and "iterdir_error w = None"
  shows "output_name_of f1 = output_name_of f2 \<and>
    (\<not> overwrite a \<and> outcomes (snd (main c a w)) ! length pre = (fst f1, Processed)
       \<longrightarrow> outcomes (snd (main c a w)) ! (length pre + 1 + length mid) = (fst f2, Skipped)) \<and>
    (overwrite a
       \<longrightarrow> outcomes (snd (main c a w)) ! (length pre + 1 + length mid) \<noteq> (fst f2, Skipped)) \<and>
    (overwrite a \<and>
       outcomes (snd (main c a w)) ! (length pre + 1 + length mid) = (fst f2, Processed)
       \<longrightarrow> (\<exists>img target resized kw.
              image_open c (snd f2) = Inr img \<and>
              get_target_size (img_size img) (width a, height a) (keep_aspect_ratio a)
                (no_upscale a) = Inr target \<and>
              transpose_resize c img target = Inr resized \<and>
              output_files (run_world (state_after c a w1 (pre @ f1 # mid @ [f2])))
                (output_name_of f1) = Some (File (WebP resized kw))))"
proof -
  let ?r1 = "state_after c a w1 pre"
  let ?pre2 = "pre @ f1 # mid"
  let ?r2 = "state_after c a w1 ?pre2"
  have names: "output_name_of f1 = output_name_of f2"
    using assms(3) by (simp add: output_name_of_def)
  have m: "snd (main c a w) = state_after c a w1 (pre @ f1 # mid @ f2 # post)"
    by (simp only: main_state_after(1) [OF assms(1) assms(4) assms(5)] assms(2))
  have at1: "outcomes (snd (main c a w)) ! length pre = last (outcomes (loop_body c a ?r1 f1))"
    by (simp only: m outcome_at)
  have "outcomes (state_after c a w1 (?pre2 @ f2 # post)) ! length ?pre2
      = last (outcomes (loop_body c a ?r2 f2))"
    by (rule outcome_at)
  then have at2: "outcomes (snd (main c a w)) ! (length pre + 1 + length mid)
      = last (outcomes (loop_body c a ?r2 f2))"
    by (simp add: m)
  have r2: "?r2 = foldl (loop_body c a) (loop_body c a ?r1 f1) mid"
    by (rule state_after_snoc)
  have a: "\<not> overwrite a \<and> outcomes (snd (main c a w)) ! length pre = (fst f1, Processed)
       \<longrightarrow> outcomes (snd (main c a w)) ! (length pre + 1 + length mid) = (fst f2, Skipped)"
  proof
    assume h: "\<not> overwrite a \<and> outcomes (snd (main c a w)) ! length pre = (fst f1, Processed)"
    then have "last (outcomes (loop_body c a ?r1 f1)) = (fst f1, Processed)"
      by (simp only: at1)
    then obtain w' where p: "process_image c (run_world ?r1) f1 (output_name_of f1)
           (width a, height a) (quality a) (keep_aspect_ratio a) (no_upscale a) (lossless a)
           = (None, w')" and w': "run_world (loop_body c a ?r1 f1) = w'"
      using last_outcome_processed by blast
    obtain n where "output_files w' (output_name_of f1) = Some n"
      using process_image_success [OF p] by blast
    with w' have "output_files (run_world (loop_body c a ?r1 f1)) (output_name_of f1) = Some n"
      by simp
    with h have "output_files (run_world ?r2) (output_name_of f1) = Some n"
      unfolding r2 by (intro loop_keeps_existing) simp_all
    then have "output_files (run_world ?r2) (output_name_of f2) \<noteq> None"
      by (simp add: names)
    with h have "loop_body c a ?r2 f2 =
        ?r2\<lparr>skipped := skipped ?r2 + 1, outcomes := outcomes ?r2 @ [(fst f2, Skipped)]\<rparr>"
      by (intro loop_body_skip) simp_all
    then have "last (outcomes (loop_body c a ?r2 f2)) = (fst f2, Skipped)" by simp
    then show "outcomes (snd (main c a w)) ! (length pre + 1 + length mid) = (fst f2, Skipped)"
      by (simp only: at2)
  qed
  have b: "overwrite a
       \<longrightarrow> outcomes (snd (main c a w)) ! (length pre + 1 + length mid) \<noteq> (fst f2, Skipped)"
  proof
    assume "overwrite a"
    then have "last (outcomes (loop_body c a ?r2 f2)) \<noteq> (fst f2, Skipped)"
      by (rule last_outcome_not_skipped)
    then show "outcomes (snd (main c a w)) ! (length pre + 1 + length mid) \<noteq> (fst f2, Skipped)"
      by (simp only: at2) simp
  qed
  have c: "overwrite a \<and>
       outcomes (snd (main c a w)) ! (length pre + 1 + length mid) = (fst f2, Processed)
       \<longrightarrow> (\<exists>img target resized kw.
              image_open c (snd f2) = Inr img \<and>
              get_target_size (img_size img) (width a, height a) (keep_aspect_ratio a)
                (no_upscale a) = Inr target \<and>
              transpose_resize c img target = Inr resized \<and>
              output_files (run_world (state_after c a w1 (pre @ f1 # mid @ [f2])))
                (output_name_of f1) = Some (File (WebP resized kw)))"
  proof
    assume h: "overwrite a \<and>
       outcomes (snd (main c a w)) ! (length pre + 1 + length mid) = (fst f2, Processed)"
    then have "last (outcomes (loop_body c a ?r2 f2)) = (fst f2, Processed)"
      by (simp only: at2)
    then obtain w' where p: "process_image c (run_world ?r2) f2 (output_name_of f2)
           (width a, height a) (quality a) (keep_aspect_ratio a) (no_upscale a) (lossless a)
           = (None, w')" and w': "run_world (loop_body c a ?r2 f2) = w'"
      using last_outcome_processed by blast
    obtain img target resized kw where s:
      "image_open c (snd f2) = Inr img"
      "get_target_size (img_size img) (width a, height a) (keep_aspect_ratio a) (no_upscale a)
         = Inr target"
      "transpose_resize c img target = Inr resized"
      "output_files w' (output_name_of f2) = Some (File (WebP resized kw))"
      using process_image_success [OF p] by blast
    have "state_after c a w1 (pre @ f1 # mid @ [f2]) = loop_body c a ?r2 f2"
      using state_after_snoc1 [of c a w1 ?pre2 f2] by simp
    with w' s(4) have "output_files (run_world (state_after c a w1 (pre @ f1 # mid @ [f2])))
        (output_name_of f1) = Some (File (WebP resized kw))"
      by (simp add: names)
    with s(1,2,3) show "\<exists>img target resized kw.
              image_open c (snd f2) = Inr img \<and>
              get_target_size (img_size img) (width a, height a) (keep_aspect_ratio a)
                (no_upscale a) = Inr target \<and>
              transpose_resize c img target = Inr resized \<and>
              output_files (run_world (state_after c a w1 (pre @ f1 # mid @ [f2])))
                (output_name_of f1) = Some (File (WebP resized kw))"
      by blast
  qed
  from names a b c show ?thesis by blast
qed

theorem same_stem_collision_witness:
  "output_name_of (''a.jpg'', File (Data ''IMG'')) = ''a.webp'' \<and>
   output_name_of (''a.png'', File (Data ''IMGsRGB'')) = ''a.webp'' \<and>
   outcomes (snd (main example_codec example_args same_stem_world)) ! 0 = (''a.jpg'', Processed) \<and>
   outcomes (snd (main example_codec example_args same_stem_world)) ! 1 = (''a.png'', Skipped) \<and>
   outcomes (snd (main example_codec (example_args\<lparr>overwrite := True\<rparr>) same_stem_world)) ! 1
     = (''a.png'', Processed) \<and>
   (\<exists>resized kw.
      output_files (run_world (state_after example_codec (example_args\<lparr>overwrite := True\<rparr>)
          same_stem_world [(''a.jpg'', File (Data ''IMG'')), (''a.png'', File (Data ''IMGsRGB''))]))
        ''a.webp'' = Some (File (WebP resized kw)))"
proof -
  let ?j = "(''a.jpg'', File (Data ''IMG''))"
  let ?p = "(''a.png'', File (Data ''IMGsRGB''))"
  let ?es = "[?p, ?j]"
  let ?ov = "example_args\<lparr>overwrite := True\<rparr>"
  have d: "input_dir same_stem_world = Some ?es" by (simp add: same_stem_world_def)
  have cf: "candidate_files ?es = [] @ ?j # [] @ ?p # []" by code_simp
  have st: "path_stem (fst ?j) = path_stem (fst ?p)" by code_simp
  have oj: "output_name_of ?j = ''a.webp''" by code_simp
  have nw: "\<not> overwrite example_args" "overwrite ?ov" by (simp_all add: example_args_def)
  have mk: "mkdir same_stem_world = Inr same_stem_world"
    by (simp add: mkdir_def same_stem_world_def)
  have ls: "iterdir_error same_stem_world = None" by (simp add: same_stem_world_def)
  have first: "outcomes (snd (main example_codec example_args same_stem_world)) ! length ([] :: (string \<times> node) list)
      = (fst ?j, Processed)"
    by code_simp
  have second: "outcomes (snd (main example_codec ?ov same_stem_world))
        ! (length ([] :: (string \<times> node) list) + 1 + length ([] :: (string \<times> node) list))
      = (fst ?p, Processed)"
    by code_simp
  note t = same_stem_collision [OF d cf st mk ls, of example_args example_codec]
  note u = same_stem_collision [OF d cf st mk ls, of ?ov example_codec]
  from t have n: "output_name_of ?j = output_name_of ?p" by blast
  from t nw(1) first
  have 1: "outcomes (snd (main example_codec example_args same_stem_world))
      ! (length ([] :: (string \<times> node) list) + 1 + length ([] :: (string \<times> node) list))
      = (fst ?p, Skipped)"
    by blast
  from u nw(2) second
  have 2: "\<exists>img target resized kw.
      image_open example_codec (snd ?p) = Inr img \<and>
      get_target_size (img_size img) (width ?ov, height ?ov) (keep_aspect_ratio ?ov)
        (no_upscale ?ov) = Inr target \<and>
      transpose_resize example_codec img target = Inr resized \<and>
      output_files (run_world (state_after example_codec ?ov same_stem_world
          ([] @ ?j # [] @ [?p]))) (output_name_of ?j) = Some (File (WebP resized kw))"
    by blast
  then have 3: "\<exists>resized kw.
      output_files (run_world (state_after example_codec ?ov same_stem_world [?j, ?p])) ''a.webp''
        = Some (File (WebP resized kw))"
    using oj by auto
  from n oj first 1 second 3 show ?thesis by simp
qed

end
